theory Spec2Isabelle
  imports Main "HOL-Library.Word" "HOL-Library.Multiset"
begin

unbundle bit_operations_syntax

section \<open>The ParkourGame contract\<close>

text \<open>
  Solidity value types. An \<open>address\<close> is 160 bits, \<open>uint256\<close> and \<open>bytes32\<close> are 256 bits.
  The types \<open>euint32\<close>, \<open>ebool\<close> and \<open>externalEuint32\<close> of the FHE library are
  user-defined value types over \<open>bytes32\<close>: a ciphertext is known to the contract only
  by its handle.
\<close>

type_synonym address = "160 word"
type_synonym uint256 = "256 word"
type_synonym bytes32 = "256 word"
type_synonym bytes = "8 word list"
type_synonym euint32 = bytes32
type_synonym ebool = bytes32
type_synonym externalEuint32 = bytes32

text \<open>
  The FHE library (\<open>@fhevm/solidity/lib/FHE.sol\<close>) is imported by the contract and is not
  part of the repository. Its primitives are parameters of the model: a record of
  functions, together with the plaintext that the co-processor associates with a handle
  (\<open>decrypt\<close>, \<open>decryptBool\<close>), which the contract itself never reads.
  \<open>fromExternal\<close> yields \<open>None\<close> when the input proof is rejected (the call reverts).
\<close>

record fhevm =
  fromExternal :: "externalEuint32 \<Rightarrow> bytes \<Rightarrow> euint32 option"
  gt :: "euint32 \<Rightarrow> euint32 \<Rightarrow> ebool"
  select :: "ebool \<Rightarrow> euint32 \<Rightarrow> euint32 \<Rightarrow> euint32"
  decrypt :: "euint32 \<Rightarrow> 32 word"
  decryptBool :: "ebool \<Rightarrow> bool"

text \<open>
  Modelled from the spec: the laws of the co-processor primitives, which the library
  (absent from the sources) implements. \<open>greaterThan\<close> compares the plaintexts as
  unsigned 32-bit integers, \<open>select\<close> returns a ciphertext of the chosen operand's
  plaintext, and a ciphertext produced by the co-processor never has the all-zero handle,
  which stands for "not initialised".
\<close>

definition fhe_laws :: "fhevm \<Rightarrow> bool" where
  "fhe_laws V \<longleftrightarrow>
     (\<forall>a b. decryptBool V (gt V a b) = (decrypt V b < decrypt V a)) \<and>
     (\<forall>c a b. decrypt V (select V c a b) = (if decryptBool V c then decrypt V a else decrypt V b)) \<and>
     (\<forall>c a b. select V c a b \<noteq> 0) \<and>
     (\<forall>e p h. fromExternal V e p = Some h \<longrightarrow> h \<noteq> 0)"

record Character =
  tokenId :: uint256
  owner :: address
  c_exists :: bool

record PlayerScore =
  encryptedScore :: euint32
  timestamp :: uint256
  exists :: bool

text \<open>
  Contract storage. Solidity mappings are total: an absent key reads as the zero value.
  The access-control list that \<open>FHE.allow\<close> and \<open>FHE.allowThis\<close> write to is kept
  with the storage as the set of granted (handle, account) pairs.
\<close>

record contract =
  tokenCounter :: uint256
  characters :: "uint256 \<Rightarrow> Character"
  ownerTokens :: "address \<Rightarrow> uint256 list"
  playerScores :: "address \<Rightarrow> PlayerScore"
  players :: "address list"
  maxEncryptedScore :: euint32
  topPlayer :: address
  hasTopPlayer :: bool
  acl :: "(bytes32 \<times> address) set"

text \<open>The storage of a freshly deployed contract: every slot is zero.\<close>

definition zeroScore :: PlayerScore where
  "zeroScore = \<lparr>encryptedScore = 0, timestamp = 0, exists = False\<rparr>"

definition init :: contract where
  "init = \<lparr>tokenCounter = 0,
           characters = (\<lambda>_. \<lparr>tokenId = 0, owner = 0, c_exists = False\<rparr>),
           ownerTokens = (\<lambda>_. []),
           playerScores = (\<lambda>_. zeroScore),
           players = [],
           maxEncryptedScore = 0,
           topPlayer = 0,
           hasTopPlayer = False,
           acl = {}\<rparr>"

text \<open>
  A reverted call leaves the storage as it was and reports why:
  \<open>NotEligible\<close> is the failed \<open>require\<close> "Player must own a character NFT",
  \<open>InvalidProof\<close> a rejected input proof, \<open>Overflow\<close> the arithmetic panic of
  checked \<open>uint256\<close> arithmetic, \<open>OutOfBounds\<close> the panic of an array access
  outside the array.
\<close>

datatype error = NotEligible | InvalidProof | Overflow | OutOfBounds

definition mintCharacter :: "address \<Rightarrow> contract \<Rightarrow> error + (uint256 \<times> contract)" where
  "mintCharacter sender s =
     (if tokenCounter s = - 1 then Inl Overflow
      else
        let tid = tokenCounter s + 1 in
        Inr (tid,
             s\<lparr>tokenCounter := tid,
               characters := (characters s)(tid := \<lparr>tokenId = tid, owner = sender, c_exists = True\<rparr>),
               ownerTokens := (ownerTokens s)(sender := ownerTokens s sender @ [tid])\<rparr>))"

definition hasCharacter :: "contract \<Rightarrow> address \<Rightarrow> bool \<times> uint256" where
  "hasCharacter s player =
     (case ownerTokens s player of [] \<Rightarrow> (False, 0) | t # _ \<Rightarrow> (True, t))"

text \<open>
  Modelled from the spec: \<open>FHE.allow(h, a)\<close> of the absent library, and
  \<open>FHE.allowThis(h)\<close>, which is \<open>FHE.allow(h, address(this))\<close>. A grant adds the pair
  to the set of grants; granting twice changes nothing, and no grant is ever removed.
\<close>

definition allow :: "bytes32 \<Rightarrow> address \<Rightarrow> contract \<Rightarrow> contract" where
  "allow h a s = s\<lparr>acl := insert (h, a) (acl s)\<rparr>"

text \<open>
  \<open>submitScore\<close>, with \<open>this\<close> the contract's own address, \<open>sender\<close> and \<open>now\<close>
  the transaction's \<open>msg.sender\<close> and \<open>block.timestamp\<close>. The events that the
  contract emits are not part of its storage and are left out.
\<close>

definition submitScore ::
  "fhevm \<Rightarrow> address \<Rightarrow> address \<Rightarrow> uint256 \<Rightarrow> externalEuint32 \<Rightarrow> bytes \<Rightarrow> contract \<Rightarrow> error + contract"
where
  "submitScore V this sender now encScore inputProof s =
     (if \<not> (0 < length (ownerTokens s sender)) then Inl NotEligible
      else case fromExternal V encScore inputProof of
        None \<Rightarrow> Inl InvalidProof
      | Some encryptedEuint32 \<Rightarrow>
          let s1 =
            (if \<not> exists (playerScores s sender) then
               let sa = s\<lparr>players := players s @ [sender],
                          playerScores := (playerScores s)(sender :=
                            \<lparr>encryptedScore = encryptedEuint32, timestamp = now, exists = True\<rparr>)\<rparr>
               in
                 if \<not> hasTopPlayer sa then
                   sa\<lparr>maxEncryptedScore := encryptedEuint32, topPlayer := sender, hasTopPlayer := True\<rparr>
                 else
                   let isNewHigher = gt V encryptedEuint32 (maxEncryptedScore sa) in
                   sa\<lparr>maxEncryptedScore := select V isNewHigher encryptedEuint32 (maxEncryptedScore sa)\<rparr>
             else
               let currentScore = encryptedScore (playerScores s sender);
                   isNewHigher = gt V encryptedEuint32 currentScore;
                   sb = s\<lparr>playerScores := (playerScores s)(sender :=
                          (playerScores s sender)\<lparr>encryptedScore :=
                             select V isNewHigher encryptedEuint32 currentScore\<rparr>)\<rparr>;
                   isNewMax = gt V encryptedEuint32 (maxEncryptedScore sb);
                   sc = sb\<lparr>maxEncryptedScore := select V isNewMax encryptedEuint32 (maxEncryptedScore sb)\<rparr>
               in sc\<lparr>playerScores := (playerScores sc)(sender :=
                          (playerScores sc sender)\<lparr>timestamp := now\<rparr>)\<rparr>);
            s2 = allow (encryptedScore (playerScores s1 sender)) this s1;
            s3 = allow (encryptedScore (playerScores s2 sender)) sender s2;
            s4 = allow (maxEncryptedScore s3) this s3
          in Inr s4)"

definition getPlayerScore :: "contract \<Rightarrow> address \<Rightarrow> euint32 \<times> uint256 \<times> bool" where
  "getPlayerScore s player =
     (let score = playerScores s player in (encryptedScore score, timestamp score, exists score))"

definition getTopPlayer :: "contract \<Rightarrow> address \<times> bytes32" where
  "getTopPlayer s =
     (if \<not> hasTopPlayer s \<or> length (players s) = 0 then (0, 0) else (topPlayer s, 0))"

definition getMaxEncryptedScore :: "contract \<Rightarrow> euint32" where
  "getMaxEncryptedScore s = maxEncryptedScore s"

definition getPlayerCount :: "contract \<Rightarrow> nat" where
  "getPlayerCount s = length (players s)"

definition getAllPlayers :: "contract \<Rightarrow> address list" where
  "getAllPlayers s = players s"

text \<open>
  \<open>getLeaderboard\<close>: the first loop counts the players whose score exists, the second
  writes them, in the order of \<open>_players\<close>, into two arrays of that length. A write
  outside an array is the out-of-bounds panic.
\<close>

fun countValid :: "contract \<Rightarrow> address list \<Rightarrow> nat \<Rightarrow> nat" where
  "countValid s [] validCount = validCount"
| "countValid s (p # ps) validCount =
     countValid s ps (if exists (playerScores s p) then validCount + 1 else validCount)"

fun fillValid ::
  "contract \<Rightarrow> address list \<Rightarrow> nat \<Rightarrow> address list \<times> uint256 list \<Rightarrow>
   error + (address list \<times> uint256 list)"
where
  "fillValid s [] index (pls, tss) = Inr (pls, tss)"
| "fillValid s (player # ps) index (pls, tss) =
     (let score = playerScores s player in
      if exists score then
        if index < length pls \<and> index < length tss
        then fillValid s ps (index + 1) (pls[index := player], tss[index := timestamp score])
        else Inl OutOfBounds
      else fillValid s ps index (pls, tss))"

definition getLeaderboard :: "contract \<Rightarrow> error + (address list \<times> uint256 list)" where
  "getLeaderboard s =
     (let validCount = countValid s (players s) 0
      in fillValid s (players s) 0 (replicate validCount 0, replicate validCount 0))"

text \<open>
  \<open>getLeaderboardRange\<close>, whose parameter \<open>count\<close> is \<open>cnt\<close> here. The sum
  \<open>startIndex + count\<close> is checked \<open>uint256\<close> arithmetic: it panics when it does not
  fit. The loop writes entry \<open>i\<close> from \<open>_players[startIndex + i]\<close>, an index below
  \<open>endIndex\<close>, which is at most \<open>playerCount\<close>.
\<close>

definition getLeaderboardRange ::
  "contract \<Rightarrow> uint256 \<Rightarrow> uint256 \<Rightarrow> error + (address list \<times> euint32 list \<times> uint256 list)"
where
  "getLeaderboardRange s startIndex cnt =
     (let playerCount = length (players s) in
      if playerCount \<le> unat startIndex then Inr ([], [], [])
      else if 2 ^ 256 \<le> unat startIndex + unat cnt then Inl Overflow
      else
        let endIndex = (if playerCount < unat startIndex + unat cnt then playerCount
                        else unat startIndex + unat cnt);
            actualCount = endIndex - unat startIndex;
            range = map (\<lambda>i. players s ! (unat startIndex + i)) [0..<actualCount]
        in Inr (range,
                map (\<lambda>player. encryptedScore (playerScores s player)) range,
                map (\<lambda>player. timestamp (playerScores s player)) range))"

subsection \<open>Transactions and traces\<close>

text \<open>
  The chain applies state-changing calls one at a time. A call that reverts leaves the
  storage unchanged. \<open>Submit a now e p\<close> is a call of \<open>submitScore(e, p)\<close> by \<open>a\<close>
  in a block with timestamp \<open>now\<close>.
\<close>

datatype tx = Mint address | Submit address uint256 externalEuint32 bytes

fun exec :: "fhevm \<Rightarrow> address \<Rightarrow> contract \<Rightarrow> tx \<Rightarrow> contract" where
  "exec V this s (Mint a) =
     (case mintCharacter a s of Inl _ \<Rightarrow> s | Inr (_, s') \<Rightarrow> s')"
| "exec V this s (Submit a now e p) =
     (case submitScore V this a now e p s of Inl _ \<Rightarrow> s | Inr s' \<Rightarrow> s')"

fun run :: "fhevm \<Rightarrow> address \<Rightarrow> contract \<Rightarrow> tx list \<Rightarrow> contract" where
  "run V this s [] = s"
| "run V this s (t # ts) = run V this (exec V this s t) ts"

text \<open>
  The submissions of a trace that did not revert, in order: the submitting principal, the
  plaintext of the ciphertext that \<open>FHE.fromExternal\<close> returned, and the block timestamp.
\<close>

fun accepted :: "fhevm \<Rightarrow> address \<Rightarrow> contract \<Rightarrow> tx \<Rightarrow> (address \<times> 32 word \<times> uint256) list" where
  "accepted V this s (Mint a) = []"
| "accepted V this s (Submit a now e p) =
     (case submitScore V this a now e p s of
        Inl _ \<Rightarrow> []
      | Inr _ \<Rightarrow> (case fromExternal V e p of None \<Rightarrow> [] | Some h \<Rightarrow> [(a, decrypt V h, now)]))"

fun submissions :: "fhevm \<Rightarrow> address \<Rightarrow> contract \<Rightarrow> tx list \<Rightarrow> (address \<times> 32 word \<times> uint256) list" where
  "submissions V this s [] = []"
| "submissions V this s (t # ts) = accepted V this s t @ submissions V this (exec V this s t) ts"

definition plainsOf :: "address \<Rightarrow> (address \<times> 32 word \<times> uint256) list \<Rightarrow> 32 word list" where
  "plainsOf p hist = map (\<lambda>(a, v, t). v) (filter (\<lambda>(a, v, t). a = p) hist)"

definition timesOf :: "address \<Rightarrow> (address \<times> 32 word \<times> uint256) list \<Rightarrow> uint256 list" where
  "timesOf p hist = map (\<lambda>(a, v, t). t) (filter (\<lambda>(a, v, t). a = p) hist)"

definition allPlains :: "(address \<times> 32 word \<times> uint256) list \<Rightarrow> 32 word list" where
  "allPlains hist = map (\<lambda>(a, v, t). v) hist"

text \<open>The handles that a successful \<open>submitScore\<close> stores, as functions of the state before.\<close>

definition newScore :: "fhevm \<Rightarrow> contract \<Rightarrow> address \<Rightarrow> euint32 \<Rightarrow> euint32" where
  "newScore V s sender h =
     (if exists (playerScores s sender)
      then select V (gt V h (encryptedScore (playerScores s sender))) h (encryptedScore (playerScores s sender))
      else h)"

definition newMax :: "fhevm \<Rightarrow> contract \<Rightarrow> address \<Rightarrow> euint32 \<Rightarrow> euint32" where
  "newMax V s sender h =
     (if \<not> exists (playerScores s sender) \<and> \<not> hasTopPlayer s then h
      else select V (gt V h (maxEncryptedScore s)) h (maxEncryptedScore s))"


subsection \<open>Invariants of the storage\<close>

text \<open>
  Each invariant relates the storage to the list of submissions accepted so far.
\<close>

definition top_inv :: "contract \<Rightarrow> (address \<times> 32 word \<times> uint256) list \<Rightarrow> bool" where
  "top_inv s hist \<longleftrightarrow>
     hasTopPlayer s = (hist \<noteq> []) \<and>
     (players s = []) = (hist = []) \<and>
     (\<forall>p. exists (playerScores s p) \<longrightarrow> hist \<noteq> []) \<and>
     (hist \<noteq> [] \<longrightarrow> topPlayer s = fst (hd hist)) \<and>
     (hist = [] \<longrightarrow> maxEncryptedScore s = 0)"

definition score_inv :: "fhevm \<Rightarrow> contract \<Rightarrow> (address \<times> 32 word \<times> uint256) list \<Rightarrow> bool" where
  "score_inv V s hist \<longleftrightarrow>
     (\<forall>p. exists (playerScores s p) = (plainsOf p hist \<noteq> [])) \<and>
     (\<forall>p. plainsOf p hist \<noteq> [] \<longrightarrow>
        decrypt V (encryptedScore (playerScores s p)) = Max (set (plainsOf p hist)) \<and>
        timestamp (playerScores s p) = last (timesOf p hist)) \<and>
     hasTopPlayer s = (hist \<noteq> []) \<and>
     (hist \<noteq> [] \<longrightarrow> decrypt V (maxEncryptedScore s) = Max (set (allPlains hist)))"

text \<open>
  Invariant I4: the ciphertext of every existing score is granted to the contract and to
  its owner, and the maximum, once set, is granted to the contract.
\<close>

definition I4 :: "address \<Rightarrow> contract \<Rightarrow> bool" where
  "I4 this s \<longleftrightarrow>
     (\<forall>p. exists (playerScores s p) \<longrightarrow>
        (encryptedScore (playerScores s p), this) \<in> acl s \<and>
        (encryptedScore (playerScores s p), p) \<in> acl s) \<and>
     (hasTopPlayer s \<longrightarrow> (maxEncryptedScore s, this) \<in> acl s)"

definition players_inv :: "contract \<Rightarrow> bool" where
  "players_inv s \<longleftrightarrow>
     distinct (players s) \<and>
     (\<forall>p. p \<in> set (players s) \<longleftrightarrow> exists (playerScores s p))"

definition handles_inv :: "contract \<Rightarrow> bool" where
  "handles_inv s \<longleftrightarrow>
     (\<forall>p. exists (playerScores s p) \<longrightarrow> encryptedScore (playerScores s p) \<noteq> 0)"

fun isSubmit :: "tx \<Rightarrow> bool" where
  "isSubmit (Submit a now e p) = True"
| "isSubmit (Mint a) = False"

subsection \<open>A co-processor to evaluate with\<close>

text \<open>
  A co-processor in the manner of the mock used for local testing: the handle of a
  ciphertext is its plaintext with bit 32 set, the handles 1 and 2 are the encrypted
  booleans, and an input proof is accepted when it is not empty.
\<close>

definition mockEnc :: "32 word \<Rightarrow> bytes32" where
  "mockEnc v = set_bit 32 (ucast v)"

definition mockFhe :: fhevm where
  "mockFhe = \<lparr>
     fromExternal = (\<lambda>e p. if p = [] then None else Some (mockEnc (ucast e))),
     gt = (\<lambda>a b. if (ucast b :: 32 word) < ucast a then 1 else 2),
     select = (\<lambda>c a b. mockEnc (if c = 1 then ucast a else ucast b)),
     decrypt = ucast,
     decryptBool = (\<lambda>c. c = 1)\<rparr>"

section \<open>The client hook \<open>useParkourGame\<close>\<close>

text \<open>
  The hook keeps React state and refs and starts asynchronous operations. An \<open>async\<close>
  function runs until its next \<open>await\<close> and is resumed when the awaited promise
  settles; between the two, other calls and re-renders may happen. The model keeps, for
  every started \<open>run()\<close>, the \<open>await\<close> it is suspended at together with the values
  its closure captured, and resumes it with the settled value. Every external call that
  the hook issues is appended to the log \<open>calls\<close>. The signer, the contract proxy,
  the FHEVM instance and \<open>FhevmDecryptionSignature\<close> belong to libraries outside the
  repository: what their calls settle to is an input of the model.
\<close>

type_synonym signer = address

datatype 'a settled = Resolved 'a | Rejected string

record DecryptionSignature =
  privateKey :: string
  publicKey :: string
  signature :: string
  contractAddresses :: "address list"
  userAddress :: address
  startTimestamp :: nat
  durationDays :: nat

text \<open>The values of the last render that the callbacks close over.\<close>

record props =
  p_address :: "address option"
  p_instance :: bool
  p_ethersSigner :: "signer option"
  p_ethersReadonlyProvider :: bool
  p_chainId :: "nat option"
  p_hasCharacter :: bool

text \<open>\<open>thisChainId\<close>, \<open>thisParkourGameAddress\<close> and \<open>thisEthersSigner\<close> of a started operation.\<close>

record captured =
  thisChainId :: "nat option"
  thisParkourGameAddress :: address
  thisEthersSigner :: signer

datatype extcall =
    Call_getAddress signer
  | Call_getPlayerScore address address
  | Call_loadOrSign "address list" signer
  | Call_userDecrypt bytes32 address DecryptionSignature
  | Call_setTimeout nat
  | Call_encrypt address signer nat
  | Call_submitScore address bytes32 bytes
  | Call_wait string
  | Call_getLeaderboard address

datatype drun =
    D_getAddress captured
  | D_getPlayerScore captured
  | D_loadOrSign captured bytes32
  | D_userDecrypt captured bytes32

datatype srun =
    S_setTimeout captured nat
  | S_encrypt captured
  | S_submitScore captured
  | S_wait captured

datatype lrun =
    L_getLeaderboard "nat option" address
  | L_getPlayerScores "nat option" address "address list"

record Entry =
  e_address :: address
  encryptedScoreHandle :: bytes32
  e_timestamp :: uint256

record RankedEntry = Entry +
  rank :: nat

record hook =
  playerScore :: "string option"
  message :: string
  isSubmitting :: bool
  isDecrypting :: bool
  isLoadingLeaderboard :: bool
  leaderboard :: "RankedEntry list"
  isSubmittingRef :: bool
  isDecryptingRef :: bool
  parkourGameRef :: "address option"
  sameChain :: "nat option \<Rightarrow> bool"
  sameSigner :: "signer option \<Rightarrow> bool"
  decryptRuns :: "drun list"
  submitRuns :: "srun list"
  leaderboardRuns :: "lrun list"
  calls :: "extcall list"

definition hook0 :: hook where
  "hook0 = \<lparr>playerScore = None, message = [], isSubmitting = False, isDecrypting = False,
            isLoadingLeaderboard = False, leaderboard = [],
            isSubmittingRef = False, isDecryptingRef = False,
            parkourGameRef = None, sameChain = (\<lambda>_. True), sameSigner = (\<lambda>_. True),
            decryptRuns = [], submitRuns = [], leaderboardRuns = [],
            calls = []\<rparr>"

text \<open>Decimal rendering of a number, as \<open>toString()\<close> and template literals produce it.\<close>

function natToString :: "nat \<Rightarrow> string" where
  "natToString n =
     (if n < 10 then [char_of (48 + n)]
      else natToString (n div 10) @ [char_of (48 + n mod 10)])"
  by pat_completeness auto
termination
  by (relation "measure (\<lambda>n. n)") auto

text \<open>
  The staleness test that both \<open>submitScore\<close> and \<open>decryptScore\<close> build over their
  captured values; \<open>sameChain\<close> and \<open>sameSigner\<close> are refs to functions supplied by
  the caller of the hook.
\<close>

definition isStale :: "captured \<Rightarrow> hook \<Rightarrow> bool" where
  "isStale c h \<longleftrightarrow>
     Some (thisParkourGameAddress c) \<noteq> parkourGameRef h \<or>
     \<not> sameChain h (thisChainId c) \<or>
     \<not> sameSigner h (Some (thisEthersSigner c))"

definition addCall :: "extcall \<Rightarrow> hook \<Rightarrow> hook" where
  "addCall c h = h\<lparr>calls := calls h @ [c]\<rparr>"

subsection \<open>\<open>decryptScore\<close>\<close>

definition decryptFinally :: "hook \<Rightarrow> hook" where
  "decryptFinally h = h\<lparr>isDecryptingRef := False, isDecrypting := False\<rparr>"

definition decryptCatch :: "string \<Rightarrow> hook \<Rightarrow> hook" where
  "decryptCatch msg h = decryptFinally (h\<lparr>message := ''Decryption failed: '' @ msg\<rparr>)"

text \<open>
  The synchronous part: the guard, the flags, the captured values, and the start of
  \<open>run()\<close> up to its first \<open>await\<close>.
\<close>

definition decryptScore :: "props \<Rightarrow> hook \<Rightarrow> hook" where
  "decryptScore pr h =
     (case (p_address pr, p_ethersSigner pr) of
        (Some addr, Some sg) \<Rightarrow>
          if isDecryptingRef h \<or> \<not> p_instance pr then h
          else
            let h1 = h\<lparr>isDecryptingRef := True, isDecrypting := True,
                       message := ''Decrypting score...''\<rparr>;
                c = \<lparr>thisChainId = p_chainId pr, thisParkourGameAddress = addr,
                     thisEthersSigner = sg\<rparr>
            in (addCall (Call_getAddress sg) h1)\<lparr>decryptRuns := decryptRuns h1 @ [D_getAddress c]\<rparr>
      | _ \<Rightarrow> h)"

text \<open>After \<open>await thisEthersSigner.getAddress()\<close>.\<close>

definition afterGetAddress :: "captured \<Rightarrow> address settled \<Rightarrow> hook \<Rightarrow> hook \<times> drun option" where
  "afterGetAddress c r h =
     (case r of
        Rejected msg \<Rightarrow> (decryptCatch msg h, None)
      | Resolved userAddr \<Rightarrow>
          (addCall (Call_getPlayerScore (thisParkourGameAddress c) userAddr) h,
           Some (D_getPlayerScore c)))"

text \<open>
  After \<open>await contract.getPlayerScore(userAddress)\<close>: the existence test, then the test
  for the zero handle, then the request for a decryption signature. The handle arrives as
  the canonical hexadecimal string of a \<open>bytes32\<close>, so it equals \<open>ethers.ZeroHash\<close>
  exactly when the value is zero.
\<close>

definition afterGetPlayerScore ::
  "captured \<Rightarrow> (bytes32 \<times> uint256 \<times> bool) settled \<Rightarrow> hook \<Rightarrow> hook \<times> drun option"
where
  "afterGetPlayerScore c r h =
     (case r of
        Rejected msg \<Rightarrow> (decryptCatch msg h, None)
      | Resolved (handle, ts, ex) \<Rightarrow>
          if \<not> ex then
            (decryptFinally (h\<lparr>message := ''No score found for this player''\<rparr>), None)
          else if handle = 0 then
            (decryptFinally (h\<lparr>playerScore := Some ''0'', message := ''Score: 0''\<rparr>), None)
          else
            (addCall (Call_loadOrSign [thisParkourGameAddress c] (thisEthersSigner c)) h,
             Some (D_loadOrSign c handle)))"

text \<open>
  After \<open>await FhevmDecryptionSignature.loadOrSign(...)\<close>: the first staleness check, then
  the call of the decryption oracle \<open>instance.userDecrypt\<close>.
\<close>

definition afterLoadOrSign ::
  "captured \<Rightarrow> bytes32 \<Rightarrow> DecryptionSignature option settled \<Rightarrow> hook \<Rightarrow> hook \<times> drun option"
where
  "afterLoadOrSign c handleString r h =
     (case r of
        Rejected msg \<Rightarrow> (decryptCatch msg h, None)
      | Resolved None \<Rightarrow>
          (decryptFinally (h\<lparr>message := ''Unable to build FHEVM decryption signature''\<rparr>), None)
      | Resolved (Some sig) \<Rightarrow>
          if isStale c h then
            (decryptFinally (h\<lparr>message := ''Ignore decryption''\<rparr>), None)
          else
            (addCall (Call_userDecrypt handleString (thisParkourGameAddress c) sig)
               (h\<lparr>message := ''Calling FHEVM userDecrypt...''\<rparr>),
             Some (D_userDecrypt c handleString)))"

text \<open>
  After \<open>await instance.userDecrypt(...)\<close>: the second staleness check, then the update
  of the player's score. The oracle's answer maps handles to values; reading a handle
  that it does not contain gives \<open>undefined\<close>, whose \<open>toString\<close> throws.
\<close>

definition afterUserDecrypt ::
  "captured \<Rightarrow> bytes32 \<Rightarrow> (bytes32 \<Rightarrow> nat option) settled \<Rightarrow> hook \<Rightarrow> hook \<times> drun option"
where
  "afterUserDecrypt c handleString r h =
     (case r of
        Rejected msg \<Rightarrow> (decryptCatch msg h, None)
      | Resolved res \<Rightarrow>
          let h1 = h\<lparr>message := ''Decryption completed!''\<rparr> in
          if isStale c h1 then
            (decryptFinally (h1\<lparr>message := ''Ignore decryption''\<rparr>), None)
          else
            (case res handleString of
               None \<Rightarrow>
                 (decryptCatch ''Cannot read properties of undefined'' h1, None)
             | Some decryptedValue \<Rightarrow>
                 (decryptFinally
                    (h1\<lparr>playerScore := Some (natToString decryptedValue),
                        message := ''Your score: '' @ natToString decryptedValue\<rparr>),
                  None)))"

subsection \<open>\<open>submitScore\<close> of the hook\<close>

definition submitFinally :: "hook \<Rightarrow> hook" where
  "submitFinally h = h\<lparr>isSubmittingRef := False, isSubmitting := False\<rparr>"

definition submitCatch :: "string \<Rightarrow> hook \<Rightarrow> hook" where
  "submitCatch msg h = submitFinally (h\<lparr>message := ''Submit score failed: '' @ msg\<rparr>)"

definition submitScore_hook :: "props \<Rightarrow> nat \<Rightarrow> hook \<Rightarrow> hook" where
  "submitScore_hook pr score h =
     (case (p_address pr, p_ethersSigner pr) of
        (Some addr, Some sg) \<Rightarrow>
          if isSubmittingRef h \<or> \<not> p_instance pr then h
          else if \<not> p_hasCharacter pr then
            h\<lparr>message := ''You need to mint a character first!''\<rparr>
          else
            let h1 = h\<lparr>isSubmittingRef := True, isSubmitting := True,
                       message := ''Encrypting and submitting score '' @ natToString score @ ''...''\<rparr>;
                c = \<lparr>thisChainId = p_chainId pr, thisParkourGameAddress = addr,
                     thisEthersSigner = sg\<rparr>
            in (addCall (Call_setTimeout 100) h1)\<lparr>submitRuns := submitRuns h1 @ [S_setTimeout c score]\<rparr>
      | _ \<Rightarrow> h)"

text \<open>
  After the 100 ms timer: the encrypted input is built and \<open>input.encrypt()\<close> awaited.
  An exception thrown while building the input reaches the same \<open>catch\<close> as a rejected
  \<open>encrypt\<close> and is a rejection of that step here.
\<close>

definition afterSetTimeout :: "captured \<Rightarrow> nat \<Rightarrow> hook \<Rightarrow> hook \<times> srun option" where
  "afterSetTimeout c score h =
     (addCall (Call_encrypt (thisParkourGameAddress c) (thisEthersSigner c) score) h,
      Some (S_encrypt c))"

definition afterEncrypt ::
  "captured \<Rightarrow> (bytes32 list \<times> bytes) settled \<Rightarrow> hook \<Rightarrow> hook \<times> srun option"
where
  "afterEncrypt c r h =
     (case r of
        Rejected msg \<Rightarrow> (submitCatch msg h, None)
      | Resolved (handles, inputProof) \<Rightarrow>
          if isStale c h then
            (submitFinally (h\<lparr>message := ''Ignore score submission''\<rparr>), None)
          else
            let h1 = h\<lparr>message := ''Submitting encrypted score to contract...''\<rparr> in
            (case handles of
               [] \<Rightarrow> (submitCatch ''invalid BytesLike value'' h1, None)
             | h0 # _ \<Rightarrow>
                 (addCall (Call_submitScore (thisParkourGameAddress c) h0 inputProof) h1,
                  Some (S_submitScore c))))"

definition afterSubmitScore :: "captured \<Rightarrow> string settled \<Rightarrow> hook \<Rightarrow> hook \<times> srun option" where
  "afterSubmitScore c r h =
     (case r of
        Rejected msg \<Rightarrow> (submitCatch msg h, None)
      | Resolved txHash \<Rightarrow>
          (addCall (Call_wait txHash) (h\<lparr>message := ''Transaction sent: '' @ txHash\<rparr>),
           Some (S_wait c)))"

definition afterWait :: "captured \<Rightarrow> nat option settled \<Rightarrow> hook \<Rightarrow> hook \<times> srun option" where
  "afterWait c r h =
     (case r of
        Rejected msg \<Rightarrow> (submitCatch msg h, None)
      | Resolved status \<Rightarrow>
          (submitFinally
             (h\<lparr>message := ''Score submitted successfully! Status: '' @
                   (case status of None \<Rightarrow> ''undefined'' | Some n \<Rightarrow> natToString n)\<rparr>),
           None))"

subsection \<open>\<open>fetchLeaderboard\<close>\<close>

text \<open>
  \<open>Array.prototype.sort\<close> with a comparison function is stable; with a consistent
  comparison it yields the stable insertion of every element into the sorted rest.
  A negative or zero result of \<open>cmp x y\<close> keeps \<open>x\<close> before \<open>y\<close>.
\<close>

fun insertBy :: "('a \<Rightarrow> 'a \<Rightarrow> int) \<Rightarrow> 'a \<Rightarrow> 'a list \<Rightarrow> 'a list" where
  "insertBy cmp x [] = [x]"
| "insertBy cmp x (y # ys) = (if cmp x y \<le> 0 then x # y # ys else y # insertBy cmp x ys)"

definition sortBy :: "('a \<Rightarrow> 'a \<Rightarrow> int) \<Rightarrow> 'a list \<Rightarrow> 'a list" where
  "sortBy cmp xs = foldr (insertBy cmp) xs []"

definition compareEntries :: "Entry \<Rightarrow> Entry \<Rightarrow> int" where
  "compareEntries a b =
     (if e_timestamp b < e_timestamp a then - 1
      else if e_timestamp a < e_timestamp b then 1
      else 0)"

fun rankFrom :: "nat \<Rightarrow> Entry list \<Rightarrow> RankedEntry list" where
  "rankFrom index [] = []"
| "rankFrom index (entry # es) =
     \<lparr>e_address = e_address entry, encryptedScoreHandle = encryptedScoreHandle entry,
      e_timestamp = e_timestamp entry, rank = index + 1\<rparr> # rankFrom (index + 1) es"

definition isStaleLb :: "nat option \<Rightarrow> address \<Rightarrow> hook \<Rightarrow> bool" where
  "isStaleLb chain addr h \<longleftrightarrow> Some addr \<noteq> parkourGameRef h \<or> \<not> sameChain h chain"

definition lbFinally :: "hook \<Rightarrow> hook" where
  "lbFinally h = h\<lparr>isLoadingLeaderboard := False\<rparr>"

definition lbCatch :: "string \<Rightarrow> hook \<Rightarrow> hook" where
  "lbCatch msg h = lbFinally (h\<lparr>message := ''Failed to load leaderboard: '' @ msg\<rparr>)"

definition fetchLeaderboard :: "props \<Rightarrow> hook \<Rightarrow> hook" where
  "fetchLeaderboard pr h =
     (case p_address pr of
        None \<Rightarrow> h
      | Some addr \<Rightarrow>
          if \<not> p_ethersReadonlyProvider pr then h
          else
            let h1 = h\<lparr>isLoadingLeaderboard := True, message := ''Loading leaderboard...''\<rparr>
            in (addCall (Call_getLeaderboard addr) h1)
                 \<lparr>leaderboardRuns := leaderboardRuns h1 @ [L_getLeaderboard (p_chainId pr) addr]\<rparr>)"

definition afterGetLeaderboard ::
  "nat option \<Rightarrow> address \<Rightarrow> (address list \<times> uint256 list) settled \<Rightarrow> hook \<Rightarrow> hook \<times> lrun option"
where
  "afterGetLeaderboard chain addr r h =
     (case r of
        Rejected msg \<Rightarrow> (lbCatch msg h, None)
      | Resolved (pls, timestamps) \<Rightarrow>
          if length pls = 0 then
            (lbFinally (h\<lparr>leaderboard := [], message := ''No players in leaderboard yet''\<rparr>), None)
          else if isStaleLb chain addr h then
            (lbFinally (h\<lparr>message := ''Ignore leaderboard fetch''\<rparr>), None)
          else
            (h\<lparr>message := ''Fetching '' @ natToString (length pls) @ '' player scores...'',
               calls := calls h @ map (Call_getPlayerScore addr) pls\<rparr>,
             Some (L_getPlayerScores chain addr pls)))"

text \<open>
  After \<open>await Promise.all(scorePromises)\<close>, whose result lists the answer of
  \<open>getPlayerScore\<close> for each player, in the order of \<open>players\<close>.
\<close>

definition validScoresOf ::
  "address list \<Rightarrow> (bytes32 \<times> uint256 \<times> bool) list \<Rightarrow> (address \<times> bytes32 \<times> uint256 \<times> bool) list"
where
  "validScoresOf pls results =
     filter (\<lambda>(player, sc, ts, ex). ex)
       (map (\<lambda>(player, (sc, ts, ex)). (player, sc, ts, ex)) (zip pls results))"

definition entriesOf :: "(address \<times> bytes32 \<times> uint256 \<times> bool) list \<Rightarrow> Entry list" where
  "entriesOf validScores =
     map (\<lambda>(player, sc, ts, ex). \<lparr>e_address = player, encryptedScoreHandle = sc, e_timestamp = ts\<rparr>)
       (filter (\<lambda>(player, sc, ts, ex). sc \<noteq> 0) validScores)"

definition afterGetPlayerScores ::
  "nat option \<Rightarrow> address \<Rightarrow> address list \<Rightarrow> (bytes32 \<times> uint256 \<times> bool) list settled \<Rightarrow> hook \<Rightarrow>
   hook \<times> lrun option"
where
  "afterGetPlayerScores chain addr pls r h =
     (case r of
        Rejected msg \<Rightarrow> (lbCatch msg h, None)
      | Resolved results \<Rightarrow>
          let validScores = validScoresOf pls results in
          if length validScores = 0 then
            (lbFinally (h\<lparr>leaderboard := [], message := ''No valid scores found''\<rparr>), None)
          else if isStaleLb chain addr h then
            (lbFinally (h\<lparr>message := ''Ignore leaderboard fetch''\<rparr>), None)
          else
            let h1 = h\<lparr>message := ''Building leaderboard with encrypted scores...''\<rparr>;
                entries = entriesOf validScores
            in
              if length entries = 0 then
                (lbFinally (h1\<lparr>leaderboard := [], message := ''No valid scores found''\<rparr>), None)
              else
                let rankedEntries = rankFrom 0 (sortBy compareEntries entries) in
                (lbFinally
                   (h1\<lparr>leaderboard := rankedEntries,
                       message := ''Leaderboard loaded: '' @ natToString (length rankedEntries) @
                                  '' players''\<rparr>),
                 None))"

text \<open>
  One fetch of the leaderboard against the storage \<open>s\<close> of the contract: both awaited
  reads are answered from \<open>s\<close>, and nothing else happens in between.
\<close>

definition fetchLeaderboardOn :: "contract \<Rightarrow> nat option \<Rightarrow> address \<Rightarrow> hook \<Rightarrow> hook" where
  "fetchLeaderboardOn s chain addr h =
     (case afterGetLeaderboard chain addr
             (case getLeaderboard s of Inl _ \<Rightarrow> Rejected ''call reverted'' | Inr x \<Rightarrow> Resolved x) h of
        (h1, Some (L_getPlayerScores chain' addr' pls)) \<Rightarrow>
          fst (afterGetPlayerScores chain' addr' pls (Resolved (map (getPlayerScore s) pls)) h1)
      | (h1, _) \<Rightarrow> h1)"

subsection \<open>Events of the hook\<close>

text \<open>
  What can happen to the hook: a call of one of its callbacks (with the values of the
  render whose closure is called), the settling of the promise that a started operation
  awaits, and a change of the refs that the staleness tests read. A settled value that
  does not belong to the call the operation awaits is not an event of the program.
\<close>

datatype dresponse =
    R_getAddress "address settled"
  | R_getPlayerScore "(bytes32 \<times> uint256 \<times> bool) settled"
  | R_loadOrSign "DecryptionSignature option settled"
  | R_userDecrypt "(bytes32 \<Rightarrow> nat option) settled"

datatype sresponse =
    R_setTimeout
  | R_encrypt "(bytes32 list \<times> bytes) settled"
  | R_submitScore "string settled"
  | R_wait "nat option settled"

datatype lresponse =
    R_getLeaderboard "(address list \<times> uint256 list) settled"
  | R_getPlayerScores "(bytes32 \<times> uint256 \<times> bool) list settled"

fun resumeDecrypt :: "drun \<Rightarrow> dresponse \<Rightarrow> hook \<Rightarrow> (hook \<times> drun option) option" where
  "resumeDecrypt (D_getAddress c) (R_getAddress r) h = Some (afterGetAddress c r h)"
| "resumeDecrypt (D_getPlayerScore c) (R_getPlayerScore r) h = Some (afterGetPlayerScore c r h)"
| "resumeDecrypt (D_loadOrSign c hs) (R_loadOrSign r) h = Some (afterLoadOrSign c hs r h)"
| "resumeDecrypt (D_userDecrypt c hs) (R_userDecrypt r) h = Some (afterUserDecrypt c hs r h)"
| "resumeDecrypt _ _ h = None"

fun resumeSubmit :: "srun \<Rightarrow> sresponse \<Rightarrow> hook \<Rightarrow> (hook \<times> srun option) option" where
  "resumeSubmit (S_setTimeout c score) R_setTimeout h = Some (afterSetTimeout c score h)"
| "resumeSubmit (S_encrypt c) (R_encrypt r) h = Some (afterEncrypt c r h)"
| "resumeSubmit (S_submitScore c) (R_submitScore r) h = Some (afterSubmitScore c r h)"
| "resumeSubmit (S_wait c) (R_wait r) h = Some (afterWait c r h)"
| "resumeSubmit _ _ h = None"

fun resumeLeaderboard :: "lrun \<Rightarrow> lresponse \<Rightarrow> hook \<Rightarrow> (hook \<times> lrun option) option" where
  "resumeLeaderboard (L_getLeaderboard chain addr) (R_getLeaderboard r) h =
     Some (afterGetLeaderboard chain addr r h)"
| "resumeLeaderboard (L_getPlayerScores chain addr pls) (R_getPlayerScores r) h =
     Some (afterGetPlayerScores chain addr pls r h)"
| "resumeLeaderboard _ _ h = None"

text \<open>The list of started operations after operation \<open>i\<close> has moved on or finished.\<close>

definition advance :: "nat \<Rightarrow> 'r option \<Rightarrow> 'r list \<Rightarrow> 'r list" where
  "advance i next runs =
     (case next of None \<Rightarrow> take i runs @ drop (Suc i) runs | Some r \<Rightarrow> runs[i := r])"

datatype event =
    Ev_decryptScore props
  | Ev_submitScore props nat
  | Ev_fetchLeaderboard props
  | Ev_decryptSettled nat dresponse
  | Ev_submitSettled nat sresponse
  | Ev_leaderboardSettled nat lresponse
  | Ev_refs "address option" "nat option \<Rightarrow> bool" "signer option \<Rightarrow> bool"

fun fire :: "hook \<Rightarrow> event \<Rightarrow> hook" where
  "fire h (Ev_decryptScore pr) = decryptScore pr h"
| "fire h (Ev_submitScore pr score) = submitScore_hook pr score h"
| "fire h (Ev_fetchLeaderboard pr) = fetchLeaderboard pr h"
| "fire h (Ev_decryptSettled i r) =
     (if i < length (decryptRuns h) then
        (case resumeDecrypt (decryptRuns h ! i) r h of
           None \<Rightarrow> h
         | Some (h', next) \<Rightarrow> h'\<lparr>decryptRuns := advance i next (decryptRuns h')\<rparr>)
      else h)"
| "fire h (Ev_submitSettled i r) =
     (if i < length (submitRuns h) then
        (case resumeSubmit (submitRuns h ! i) r h of
           None \<Rightarrow> h
         | Some (h', next) \<Rightarrow> h'\<lparr>submitRuns := advance i next (submitRuns h')\<rparr>)
      else h)"
| "fire h (Ev_leaderboardSettled i r) =
     (if i < length (leaderboardRuns h) then
        (case resumeLeaderboard (leaderboardRuns h ! i) r h of
           None \<Rightarrow> h
         | Some (h', next) \<Rightarrow> h'\<lparr>leaderboardRuns := advance i next (leaderboardRuns h')\<rparr>)
      else h)"
| "fire h (Ev_refs a ch sg) = h\<lparr>parkourGameRef := a, sameChain := ch, sameSigner := sg\<rparr>"

definition fires :: "hook \<Rightarrow> event list \<Rightarrow> hook" where
  "fires h evs = foldl fire h evs"

text \<open>
  The guard invariant: a ref is set exactly while an operation of its kind is started and
  not finished, and there is at most one such operation.
\<close>

definition guard_inv :: "hook \<Rightarrow> bool" where
  "guard_inv h \<longleftrightarrow>
     length (decryptRuns h) \<le> 1 \<and> isDecryptingRef h = (decryptRuns h \<noteq> []) \<and>
     length (submitRuns h) \<le> 1 \<and> isSubmittingRef h = (submitRuns h \<noteq> [])"

text \<open>What resuming an operation leaves alone, and what it does to the guard refs.\<close>

definition dframe :: "hook \<Rightarrow> hook \<times> drun option \<Rightarrow> bool" where
  "dframe h res \<longleftrightarrow>
     decryptRuns (fst res) = decryptRuns h \<and> submitRuns (fst res) = submitRuns h \<and>
     isSubmittingRef (fst res) = isSubmittingRef h \<and>
     isDecryptingRef (fst res) = (snd res \<noteq> None \<and> isDecryptingRef h)"

definition sframe :: "hook \<Rightarrow> hook \<times> srun option \<Rightarrow> bool" where
  "sframe h res \<longleftrightarrow>
     decryptRuns (fst res) = decryptRuns h \<and> submitRuns (fst res) = submitRuns h \<and>
     isDecryptingRef (fst res) = isDecryptingRef h \<and>
     isSubmittingRef (fst res) = (snd res \<noteq> None \<and> isSubmittingRef h)"

definition lframe :: "hook \<Rightarrow> hook \<times> lrun option \<Rightarrow> bool" where
  "lframe h res \<longleftrightarrow>
     decryptRuns (fst res) = decryptRuns h \<and> submitRuns (fst res) = submitRuns h \<and>
     isDecryptingRef (fst res) = isDecryptingRef h \<and>
     isSubmittingRef (fst res) = isSubmittingRef h"

subsection \<open>Concrete inputs to evaluate the hook with\<close>

definition props0 :: props where
  "props0 = \<lparr>p_address = Some 7, p_instance = True, p_ethersSigner = Some 1,
             p_ethersReadonlyProvider = True, p_chainId = Some 31337, p_hasCharacter = True\<rparr>"

definition captured0 :: captured where
  "captured0 = \<lparr>thisChainId = Some 31337, thisParkourGameAddress = 7, thisEthersSigner = 1\<rparr>"

definition sig0 :: DecryptionSignature where
  "sig0 = \<lparr>privateKey = ''sk'', publicKey = ''pk'', signature = ''sig'',
           contractAddresses = [7], userAddress = 1, startTimestamp = 1000, durationDays = 365\<rparr>"

text \<open>
  A decryption in flight whose chain changes while the signature is awaited, and one
  whose signer changes while the oracle is awaited.
\<close>

definition staleBeforeOracle :: hook where
  "staleBeforeOracle = fires hook0
     [Ev_refs (Some 7) (\<lambda>c. c = Some 31337) (\<lambda>s. s = Some 1),
      Ev_decryptScore props0,
      Ev_decryptSettled 0 (R_getAddress (Resolved 1)),
      Ev_decryptSettled 0 (R_getPlayerScore (Resolved (5, 100, True))),
      Ev_refs (Some 7) (\<lambda>c. c = Some 1) (\<lambda>s. s = Some 1)]"

definition staleAfterOracle :: hook where
  "staleAfterOracle = fires hook0
     [Ev_refs (Some 7) (\<lambda>c. c = Some 31337) (\<lambda>s. s = Some 1),
      Ev_decryptScore props0,
      Ev_decryptSettled 0 (R_getAddress (Resolved 1)),
      Ev_decryptSettled 0 (R_getPlayerScore (Resolved (5, 100, True))),
      Ev_decryptSettled 0 (R_loadOrSign (Resolved (Some sig0))),
      Ev_refs (Some 7) (\<lambda>c. c = Some 31337) (\<lambda>s. s = Some 2)]"

text \<open>The leaderboard entry that a fetch builds for a player from the storage.\<close>

definition entryOf :: "contract \<Rightarrow> address \<Rightarrow> Entry" where
  "entryOf s p = \<lparr>e_address = p, encryptedScoreHandle = encryptedScore (playerScores s p),
                  e_timestamp = timestamp (playerScores s p)\<rparr>"

definition listed :: "contract \<Rightarrow> address \<Rightarrow> bool" where
  "listed s p \<longleftrightarrow> exists (playerScores s p) \<and> encryptedScore (playerScores s p) \<noteq> 0"

text \<open>
  A storage with two players, the later submission being the higher one, and a hook
  whose configured contract is the one it reads.
\<close>

definition ledger0 :: contract where
  "ledger0 = run mockFhe 99 init [Mint 1, Mint 2, Submit 1 100 50 [1], Submit 2 200 80 [1]]"

definition viewer0 :: hook where
  "viewer0 = hook0\<lparr>parkourGameRef := Some 7\<rparr>"

section \<open>Properties of the contract\<close>

subsection \<open>What a successful submission writes\<close>

lemma submitScore_NotEligible:
  "ownerTokens s sender = [] \<Longrightarrow> submitScore V this sender now e p s = Inl NotEligible"
  by (simp add: submitScore_def)

lemma submitScore_InvalidProof:
  "ownerTokens s sender \<noteq> [] \<Longrightarrow> fromExternal V e p = None \<Longrightarrow>
   submitScore V this sender now e p s = Inl InvalidProof"
  by (simp add: submitScore_def)

lemma submitScore_InrD:
  assumes "submitScore V this sender now e p s = Inr s'"
  obtains h where "ownerTokens s sender \<noteq> []" and "fromExternal V e p = Some h"
  using assms by (cases "fromExternal V e p") (auto simp: submitScore_def split: if_splits)

lemma submitScore_fields:
  assumes "submitScore V this sender now e p s = Inr s'" and "fromExternal V e p = Some h"
  shows "playerScores s' sender =
           \<lparr>encryptedScore = newScore V s sender h, timestamp = now, exists = True\<rparr>"
    and "q \<noteq> sender \<Longrightarrow> playerScores s' q = playerScores s q"
    and "maxEncryptedScore s' = newMax V s sender h"
    and "hasTopPlayer s' = (hasTopPlayer s \<or> \<not> exists (playerScores s sender))"
    and "topPlayer s' =
           (if \<not> exists (playerScores s sender) \<and> \<not> hasTopPlayer s then sender else topPlayer s)"
    and "players s' =
           (if exists (playerScores s sender) then players s else players s @ [sender])"
    and "ownerTokens s' = ownerTokens s"
    and "acl s' = insert (newMax V s sender h, this)
                   (insert (newScore V s sender h, sender)
                     (insert (newScore V s sender h, this) (acl s)))"
  using assms
  by (auto simp: submitScore_def Let_def allow_def newScore_def newMax_def split: if_splits)

lemma mintCharacter_fields:
  assumes "mintCharacter a s = Inr (t, s')"
  shows "playerScores s' = playerScores s" and "maxEncryptedScore s' = maxEncryptedScore s"
    and "hasTopPlayer s' = hasTopPlayer s" and "topPlayer s' = topPlayer s"
    and "players s' = players s" and "acl s' = acl s"
    and "ownerTokens s' = (ownerTokens s)(a := ownerTokens s a @ [t])"
  using assms by (auto simp: mintCharacter_def Let_def split: if_splits)

subsection \<open>Induction over traces\<close>

lemma run_hist_induct:
  assumes base: "P s hist"
    and submit: "\<And>s hist sender now e p h s'. P s hist \<Longrightarrow>
        submitScore V this sender now e p s = Inr s' \<Longrightarrow> fromExternal V e p = Some h \<Longrightarrow>
        P s' (hist @ [(sender, decrypt V h, now)])"
    and mint: "\<And>s hist a t s'. P s hist \<Longrightarrow> mintCharacter a s = Inr (t, s') \<Longrightarrow> P s' hist"
  shows "P (run V this s txs) (hist @ submissions V this s txs)"
  using base
proof (induction txs arbitrary: s hist)
  case Nil
  then show ?case by simp
next
  case (Cons t ts)
  show ?case
  proof (cases t)
    case (Mint a)
    show ?thesis
    proof (cases "mintCharacter a s")
      case (Inl err)
      with Mint Cons.IH [OF Cons.prems] show ?thesis by simp
    next
      case (Inr r)
      obtain tid s' where r: "r = (tid, s')" by (cases r)
      have "P s' hist" using mint [OF Cons.prems] Inr r by simp
      from Cons.IH [OF this] show ?thesis using Mint Inr r by simp
    qed
  next
    case (Submit a now e p)
    show ?thesis
    proof (cases "submitScore V this a now e p s")
      case (Inl err)
      with Submit Cons.IH [OF Cons.prems] show ?thesis by simp
    next
      case (Inr s')
      then obtain h where h: "fromExternal V e p = Some h" by (rule submitScore_InrD)
      have "P s' (hist @ [(a, decrypt V h, now)])" by (rule submit [OF Cons.prems Inr h])
      from Cons.IH [OF this] show ?thesis using Submit Inr h by simp
    qed
  qed
qed

lemma run_init_induct:
  assumes "P init []"
    and "\<And>s hist sender now e p h s'. P s hist \<Longrightarrow>
        submitScore V this sender now e p s = Inr s' \<Longrightarrow> fromExternal V e p = Some h \<Longrightarrow>
        P s' (hist @ [(sender, decrypt V h, now)])"
    and "\<And>s hist a t s'. P s hist \<Longrightarrow> mintCharacter a s = Inr (t, s') \<Longrightarrow> P s' hist"
  shows "P (run V this init txs) (submissions V this init txs)"
  using run_hist_induct [of P init "[]" V this txs] assms by simp

lemma top_inv_run: "top_inv (run V this init txs) (submissions V this init txs)"
proof (rule run_init_induct)
  show "top_inv init []" by (simp add: top_inv_def init_def zeroScore_def)
next
  fix s hist sender now e p h s'
  assume inv: "top_inv s hist" and ok: "submitScore V this sender now e p s = Inr s'"
    and h: "fromExternal V e p = Some h"
  note f = submitScore_fields [OF ok h]
  show "top_inv s' (hist @ [(sender, decrypt V h, now)])"
    using inv unfolding top_inv_def
    by (auto simp: f(3-6) f(1) dest: f(2)[symmetric])
next
  fix s hist a t s'
  assume "top_inv s hist" and "mintCharacter a s = Inr (t, s')"
  then show "top_inv s' hist" by (simp add: top_inv_def mintCharacter_fields)
qed


lemma Max_snoc: "xs \<noteq> [] \<Longrightarrow> Max (set (xs @ [v])) = max (Max (set xs)) (v::'a::linorder)"
  by (simp add: max.commute)

lemma decrypt_select_gt:
  "fhe_laws V \<Longrightarrow> decrypt V (select V (gt V h c) h c) = max (decrypt V c) (decrypt V h)"
  by (auto simp: fhe_laws_def max_def)

lemma plainsOf_snoc:
  "plainsOf p (hist @ [(a, v, t)]) = plainsOf p hist @ (if a = p then [v] else [])"
  by (simp add: plainsOf_def)

lemma timesOf_snoc:
  "timesOf p (hist @ [(a, v, t)]) = timesOf p hist @ (if a = p then [t] else [])"
  by (simp add: timesOf_def)

lemma allPlains_snoc: "allPlains (hist @ [(a, v, t)]) = allPlains hist @ [v]"
  by (simp add: allPlains_def)

lemma timesOf_Nil_iff: "timesOf p hist = [] \<longleftrightarrow> plainsOf p hist = []"
  by (simp add: timesOf_def plainsOf_def)

lemma allPlains_Nil_iff: "allPlains hist = [] \<longleftrightarrow> hist = []"
  by (simp add: allPlains_def)

lemma plainsOf_nonempty_hist: "plainsOf p hist \<noteq> [] \<Longrightarrow> hist \<noteq> []"
  by (auto simp: plainsOf_def)

lemma score_inv_submit:
  assumes laws: "fhe_laws V" and inv: "score_inv V s hist"
    and ok: "submitScore V this sender now e p s = Inr s'" and h: "fromExternal V e p = Some h"
  shows "score_inv V s' (hist @ [(sender, decrypt V h, now)])"
proof -
  note f = submitScore_fields [OF ok h]
  have ex: "\<And>q. exists (playerScores s q) = (plainsOf q hist \<noteq> [])"
    and sc: "\<And>q. plainsOf q hist \<noteq> [] \<Longrightarrow>
               decrypt V (encryptedScore (playerScores s q)) = Max (set (plainsOf q hist))"
    and ts: "\<And>q. plainsOf q hist \<noteq> [] \<Longrightarrow> timestamp (playerScores s q) = last (timesOf q hist)"
    and top: "hasTopPlayer s = (hist \<noteq> [])"
    and mx: "hist \<noteq> [] \<Longrightarrow> decrypt V (maxEncryptedScore s) = Max (set (allPlains hist))"
    using inv by (auto simp: score_inv_def)
  let ?hist' = "hist @ [(sender, decrypt V h, now)]"
  have a: "exists (playerScores s' q) = (plainsOf q ?hist' \<noteq> [])" for q
    by (cases "q = sender") (simp_all add: f(1) f(2) ex plainsOf_snoc)
  have b: "decrypt V (encryptedScore (playerScores s' q)) = Max (set (plainsOf q ?hist'))"
    if "plainsOf q ?hist' \<noteq> []" for q
  proof (cases "q = sender")
    case True
    show ?thesis
    proof (cases "plainsOf sender hist = []")
      case True
      with \<open>q = sender\<close> show ?thesis
        by (simp add: f(1) newScore_def ex plainsOf_snoc)
    next
      case False
      with \<open>q = sender\<close> show ?thesis
        by (simp add: f(1) newScore_def ex plainsOf_snoc decrypt_select_gt [OF laws] sc
            max.commute)
    qed
  next
    case False
    with that show ?thesis by (simp add: f(2) plainsOf_snoc sc)
  qed
  have c: "timestamp (playerScores s' q) = last (timesOf q ?hist')"
    if "plainsOf q ?hist' \<noteq> []" for q
  proof (cases "q = sender")
    case True
    then show ?thesis by (simp add: f(1) timesOf_snoc)
  next
    case False
    with that show ?thesis by (simp add: f(2) plainsOf_snoc timesOf_snoc ts)
  qed
  have d: "hasTopPlayer s' = (?hist' \<noteq> [])"
    using ex [of sender] plainsOf_nonempty_hist [of sender hist] by (auto simp: f(4) top)
  have e: "decrypt V (maxEncryptedScore s') = Max (set (allPlains ?hist'))"
  proof (cases "hist = []")
    case True
    then show ?thesis using top ex [of sender]
      by (simp add: f(3) newMax_def allPlains_snoc plainsOf_def allPlains_def)
  next
    case False
    then have "allPlains hist \<noteq> []" by (simp add: allPlains_Nil_iff)
    then show ?thesis using False top
      by (simp add: f(3) newMax_def allPlains_snoc decrypt_select_gt [OF laws] mx max.commute)
  qed
  show ?thesis unfolding score_inv_def using a b c d e by blast
qed

lemma score_inv_run:
  assumes "fhe_laws V"
  shows "score_inv V (run V this init txs) (submissions V this init txs)"
proof (rule run_init_induct)
  show "score_inv V init []"
    by (simp add: score_inv_def init_def zeroScore_def plainsOf_def)
next
  fix s hist sender now e p h s'
  assume "score_inv V s hist" "submitScore V this sender now e p s = Inr s'"
    "fromExternal V e p = Some h"
  then show "score_inv V s' (hist @ [(sender, decrypt V h, now)])"
    by (rule score_inv_submit [OF assms])
next
  fix s hist a t s'
  assume "score_inv V s hist" and "mintCharacter a s = Inr (t, s')"
  then show "score_inv V s' hist" by (simp add: score_inv_def mintCharacter_fields)
qed


lemma run_state_induct:
  assumes "Q init"
    and "\<And>s sender now e p h s'. Q s \<Longrightarrow>
        submitScore V this sender now e p s = Inr s' \<Longrightarrow> fromExternal V e p = Some h \<Longrightarrow> Q s'"
    and "\<And>s a t s'. Q s \<Longrightarrow> mintCharacter a s = Inr (t, s') \<Longrightarrow> Q s'"
  shows "Q (run V this init txs)"
  using run_hist_induct [of "\<lambda>s hist. Q s" init "[]" V this txs] assms by blast

lemma I4_run: "I4 this (run V this init txs)"
proof (rule run_state_induct)
  show "I4 this init" by (simp add: I4_def init_def zeroScore_def)
next
  fix s sender now e p h s'
  assume inv: "I4 this s" and ok: "submitScore V this sender now e p s = Inr s'"
    and h: "fromExternal V e p = Some h"
  note f = submitScore_fields [OF ok h]
  show "I4 this s'"
    unfolding I4_def
  proof (intro conjI allI impI)
    fix q assume q: "exists (playerScores s' q)"
    show "(encryptedScore (playerScores s' q), this) \<in> acl s'"
      using inv q by (cases "q = sender") (auto simp: f(1) f(2) f(8) I4_def)
    show "(encryptedScore (playerScores s' q), q) \<in> acl s'"
      using inv q by (cases "q = sender") (auto simp: f(1) f(2) f(8) I4_def)
  next
    show "(maxEncryptedScore s', this) \<in> acl s'" by (simp add: f(3) f(8))
  qed
next
  fix s a t s'
  assume "I4 this s" and "mintCharacter a s = Inr (t, s')"
  then show "I4 this s'" by (simp add: I4_def mintCharacter_fields)
qed

lemma newScore_nonzero:
  "fhe_laws V \<Longrightarrow> fromExternal V e p = Some h \<Longrightarrow> newScore V s sender h \<noteq> 0"
  by (auto simp: newScore_def fhe_laws_def)

lemma players_inv_run: "players_inv (run V this init txs)"
proof (rule run_state_induct)
  show "players_inv init" by (simp add: players_inv_def init_def zeroScore_def)
next
  fix s sender now e p h s'
  assume inv: "players_inv s" and ok: "submitScore V this sender now e p s = Inr s'"
    and h: "fromExternal V e p = Some h"
  note f = submitScore_fields [OF ok h]
  have 1: "distinct (players s')" using inv by (auto simp: f(6) players_inv_def)
  have 2: "(q \<in> set (players s')) = exists (playerScores s' q)" for q
    using inv by (cases "q = sender") (auto simp: f(1) f(2) f(6) players_inv_def)
  show "players_inv s'"
    using 1 2 by (simp add: players_inv_def)
next
  fix s a t s'
  assume "players_inv s" and "mintCharacter a s = Inr (t, s')"
  then show "players_inv s'" by (simp add: players_inv_def mintCharacter_fields)
qed

lemma handles_inv_run:
  assumes laws: "fhe_laws V"
  shows "handles_inv (run V this init txs)"
proof (rule run_state_induct)
  show "handles_inv init" by (simp add: handles_inv_def init_def zeroScore_def)
next
  fix s sender now e p h s'
  assume inv: "handles_inv s" and ok: "submitScore V this sender now e p s = Inr s'"
    and h: "fromExternal V e p = Some h"
  note f = submitScore_fields [OF ok h]
  note nz = newScore_nonzero [OF laws h, of s sender]
  have "encryptedScore (playerScores s' q) \<noteq> 0" if "exists (playerScores s' q)" for q
    using inv that nz by (cases "q = sender") (auto simp: f(1) f(2) handles_inv_def)
  then show "handles_inv s'" by (simp add: handles_inv_def)
next
  fix s a t s'
  assume "handles_inv s" and "mintCharacter a s = Inr (t, s')"
  then show "handles_inv s'" by (simp add: handles_inv_def mintCharacter_fields)
qed

subsection \<open>The mock co-processor satisfies the laws\<close>

lemma ucast_mockEnc: "(ucast (mockEnc v) :: 32 word) = v"
  unfolding mockEnc_def
  by (rule bit_word_eqI) (auto simp: bit_simps)

lemma mockEnc_nonzero: "mockEnc v \<noteq> 0"
proof
  assume "mockEnc v = 0"
  then have "bit (mockEnc v) 32 = bit (0::256 word) 32" by simp
  then show False by (simp add: mockEnc_def bit_simps)
qed

lemma mockFhe_laws: "fhe_laws mockFhe"
  by (simp add: fhe_laws_def mockFhe_def ucast_mockEnc mockEnc_nonzero)



subsection \<open>Reordering submissions\<close>

lemma submitScore_Inr_iff:
  "(\<exists>s'. submitScore V this a now e p s = Inr s') \<longleftrightarrow>
   ownerTokens s a \<noteq> [] \<and> fromExternal V e p \<noteq> None"
  by (cases "fromExternal V e p") (simp_all add: submitScore_def Let_def)

lemma accepted_owner_cong:
  assumes "ownerTokens s' = ownerTokens s"
  shows "accepted V this s' t = accepted V this s t"
proof (cases t)
  case (Mint a)
  then show ?thesis by simp
next
  case (Submit a now e p)
  have "(\<exists>x. submitScore V this a now e p s' = Inr x) = (\<exists>x. submitScore V this a now e p s = Inr x)"
    by (simp add: submitScore_Inr_iff assms)
  then show ?thesis using Submit
    by (cases "submitScore V this a now e p s'"; cases "submitScore V this a now e p s") auto
qed

lemma exec_Submit_ownerTokens:
  "isSubmit t \<Longrightarrow> ownerTokens (exec V this s t) = ownerTokens s"
proof (cases t)
  case (Submit a now e p)
  show ?thesis
  proof (cases "submitScore V this a now e p s")
    case (Inl err)
    with Submit show ?thesis by simp
  next
    case (Inr s')
    then obtain h where h: "fromExternal V e p = Some h" by (rule submitScore_InrD)
    from submitScore_fields(7) [OF Inr h] Submit Inr show ?thesis by simp
  qed
qed simp

lemma submissions_submits:
  assumes "\<forall>t\<in>set txs. isSubmit t" and "ownerTokens s' = ownerTokens s"
  shows "submissions V this s' txs = concat (map (accepted V this s) txs)"
  using assms
proof (induction txs arbitrary: s')
  case Nil
  then show ?case by simp
next
  case (Cons t ts)
  have "ownerTokens (exec V this s' t) = ownerTokens s"
    using Cons.prems by (simp add: exec_Submit_ownerTokens)
  then have "submissions V this (exec V this s' t) ts = concat (map (accepted V this s) ts)"
    using Cons.IH Cons.prems(1) by simp
  moreover have "accepted V this s' t = accepted V this s t"
    using Cons.prems(2) by (rule accepted_owner_cong)
  ultimately show ?case by simp
qed

lemma run_append: "run V this s (xs @ ys) = run V this (run V this s xs) ys"
  by (induction xs arbitrary: s) auto

lemma submissions_append:
  "submissions V this s (xs @ ys) = submissions V this s xs @ submissions V this (run V this s xs) ys"
  by (induction xs arbitrary: s) auto

lemma set_submissions_perm:
  assumes "\<forall>t\<in>set subs. isSubmit t" and "mset subs' = mset subs"
  shows "set (submissions V this init (txs @ subs')) = set (submissions V this init (txs @ subs))"
proof -
  have eq: "set subs' = set subs" using assms(2) by (rule mset_eq_setD)
  then have "\<forall>t\<in>set subs'. isSubmit t" using assms(1) by simp
  then show ?thesis
    using assms(1) eq
    by (simp add: submissions_append submissions_submits [where s = "run V this init txs"])
qed

lemma decrypt_max_determined:
  assumes "fhe_laws V"
  shows "decrypt V (maxEncryptedScore (run V this init txs)) =
     (if set (submissions V this init txs) = {} then decrypt V 0
      else Max ((\<lambda>(a, v, t). v) ` set (submissions V this init txs)))"
  using score_inv_run [OF assms, of this txs] top_inv_run [of V this txs]
  by (auto simp: score_inv_def top_inv_def allPlains_def)

subsection \<open>Resuming an operation of the hook\<close>

lemma isStale_message [simp]: "isStale c (h\<lparr>message := m\<rparr>) = isStale c h"
  by (simp add: isStale_def)

lemmas hook_defs = decryptCatch_def decryptFinally_def submitCatch_def submitFinally_def
  lbCatch_def lbFinally_def addCall_def

lemma afterGetAddress_frame: "dframe h (afterGetAddress c r h)"
  by (simp add: dframe_def afterGetAddress_def hook_defs split: settled.split)

lemma afterGetPlayerScore_frame: "dframe h (afterGetPlayerScore c r h)"
  by (simp add: dframe_def afterGetPlayerScore_def hook_defs split: settled.split prod.split)

lemma afterLoadOrSign_frame: "dframe h (afterLoadOrSign c hs r h)"
  by (simp add: dframe_def afterLoadOrSign_def hook_defs split: settled.split option.split)

lemma afterUserDecrypt_frame: "dframe h (afterUserDecrypt c hs r h)"
  by (simp add: dframe_def afterUserDecrypt_def hook_defs Let_def split: settled.split option.split)

lemma resumeDecrypt_frame: "resumeDecrypt d r h = Some res \<Longrightarrow> dframe h res"
  by (cases d; cases r)
     (auto simp: afterGetAddress_frame afterGetPlayerScore_frame afterLoadOrSign_frame
        afterUserDecrypt_frame)

lemma afterSetTimeout_frame: "sframe h (afterSetTimeout c n h)"
  by (simp add: sframe_def afterSetTimeout_def hook_defs)

lemma afterEncrypt_frame: "sframe h (afterEncrypt c r h)"
  by (simp add: sframe_def afterEncrypt_def hook_defs Let_def
      split: settled.split prod.split list.split)

lemma afterSubmitScore_frame: "sframe h (afterSubmitScore c r h)"
  by (simp add: sframe_def afterSubmitScore_def hook_defs split: settled.split)

lemma afterWait_frame: "sframe h (afterWait c r h)"
  by (simp add: sframe_def afterWait_def hook_defs split: settled.split)

lemma resumeSubmit_frame: "resumeSubmit d r h = Some res \<Longrightarrow> sframe h res"
  by (cases d; cases r)
     (auto simp: afterSetTimeout_frame afterEncrypt_frame afterSubmitScore_frame afterWait_frame)

lemma afterGetLeaderboard_frame: "lframe h (afterGetLeaderboard ch a r h)"
  by (simp add: lframe_def afterGetLeaderboard_def hook_defs split: settled.split prod.split)

lemma afterGetPlayerScores_frame: "lframe h (afterGetPlayerScores ch a pls r h)"
  by (simp add: lframe_def afterGetPlayerScores_def hook_defs Let_def split: settled.split)

lemma resumeLeaderboard_frame: "resumeLeaderboard d r h = Some res \<Longrightarrow> lframe h res"
  by (cases d; cases r) (auto simp: afterGetLeaderboard_frame afterGetPlayerScores_frame)


subsection \<open>The guard invariant\<close>

lemma advance_None_single: "length runs \<le> 1 \<Longrightarrow> i < length runs \<Longrightarrow> advance i None runs = []"
  by (cases runs) (auto simp: advance_def)

lemma advance_Some_length: "length (advance i (Some r) runs) = length runs"
  by (simp add: advance_def)

lemma advance_Some_nonempty: "i < length runs \<Longrightarrow> advance i (Some r) runs \<noteq> []"
  using advance_Some_length [of i r runs] by (cases runs) auto

lemma advance_guard:
  assumes "length runs \<le> 1" and "i < length runs"
  shows "length (advance i nxt runs) \<le> 1 \<and> (advance i nxt runs \<noteq> []) = (nxt \<noteq> None)"
proof (cases nxt)
  case None
  then show ?thesis using assms by (simp add: advance_None_single)
next
  case (Some r)
  then show ?thesis using assms by (simp add: advance_Some_length advance_Some_nonempty)
qed

lemma guard_inv_decryptScore: "guard_inv h \<Longrightarrow> guard_inv (decryptScore pr h)"
  by (auto simp: guard_inv_def decryptScore_def addCall_def Let_def split: option.split)

lemma guard_inv_submitScore: "guard_inv h \<Longrightarrow> guard_inv (submitScore_hook pr n h)"
  by (auto simp: guard_inv_def submitScore_hook_def addCall_def Let_def split: option.split)

lemma guard_inv_fetchLeaderboard: "guard_inv h \<Longrightarrow> guard_inv (fetchLeaderboard pr h)"
  by (auto simp: guard_inv_def fetchLeaderboard_def addCall_def Let_def split: option.split)

lemma guard_inv_fire:
  assumes inv: "guard_inv h"
  shows "guard_inv (fire h ev)"
proof (cases ev)
  case (Ev_decryptScore pr)
  then show ?thesis using inv by (simp add: guard_inv_decryptScore)
next
  case (Ev_submitScore pr n)
  then show ?thesis using inv by (simp add: guard_inv_submitScore)
next
  case (Ev_fetchLeaderboard pr)
  then show ?thesis using inv by (simp add: guard_inv_fetchLeaderboard)
next
  case (Ev_decryptSettled i r)
  show ?thesis
  proof (cases "i < length (decryptRuns h)")
    case False
    with Ev_decryptSettled inv show ?thesis by simp
  next
    case True
    show ?thesis
    proof (cases "resumeDecrypt (decryptRuns h ! i) r h")
      case None
      with Ev_decryptSettled True inv show ?thesis by simp
    next
      case (Some res)
      obtain h' nxt where res: "res = (h', nxt)" by (cases res)
      from resumeDecrypt_frame [OF Some] res
      have f: "decryptRuns h' = decryptRuns h" "submitRuns h' = submitRuns h"
        "isSubmittingRef h' = isSubmittingRef h"
        "isDecryptingRef h' = (nxt \<noteq> None \<and> isDecryptingRef h)"
        by (simp_all add: dframe_def)
      have "length (decryptRuns h) \<le> 1" and ref: "isDecryptingRef h"
        using inv True by (auto simp: guard_inv_def)
      from advance_guard [OF this(1) True, of nxt] ref inv
      have "guard_inv (h'\<lparr>decryptRuns := advance i nxt (decryptRuns h')\<rparr>)"
        by (simp add: guard_inv_def f)
      with Ev_decryptSettled True Some res show ?thesis by simp
    qed
  qed
next
  case (Ev_submitSettled i r)
  show ?thesis
  proof (cases "i < length (submitRuns h)")
    case False
    with Ev_submitSettled inv show ?thesis by simp
  next
    case True
    show ?thesis
    proof (cases "resumeSubmit (submitRuns h ! i) r h")
      case None
      with Ev_submitSettled True inv show ?thesis by simp
    next
      case (Some res)
      obtain h' nxt where res: "res = (h', nxt)" by (cases res)
      from resumeSubmit_frame [OF Some] res
      have f: "decryptRuns h' = decryptRuns h" "submitRuns h' = submitRuns h"
        "isDecryptingRef h' = isDecryptingRef h"
        "isSubmittingRef h' = (nxt \<noteq> None \<and> isSubmittingRef h)"
        by (simp_all add: sframe_def)
      have "length (submitRuns h) \<le> 1" and ref: "isSubmittingRef h"
        using inv True by (auto simp: guard_inv_def)
      from advance_guard [OF this(1) True, of nxt] ref inv
      have "guard_inv (h'\<lparr>submitRuns := advance i nxt (submitRuns h')\<rparr>)"
        by (simp add: guard_inv_def f)
      with Ev_submitSettled True Some res show ?thesis by simp
    qed
  qed
next
  case (Ev_leaderboardSettled i r)
  show ?thesis
  proof (cases "i < length (leaderboardRuns h)")
    case False
    with Ev_leaderboardSettled inv show ?thesis by simp
  next
    case True
    show ?thesis
    proof (cases "resumeLeaderboard (leaderboardRuns h ! i) r h")
      case None
      with Ev_leaderboardSettled True inv show ?thesis by simp
    next
      case (Some res)
      obtain h' nxt where res: "res = (h', nxt)" by (cases res)
      from resumeLeaderboard_frame [OF Some] res
      have f: "decryptRuns h' = decryptRuns h" "submitRuns h' = submitRuns h"
        "isDecryptingRef h' = isDecryptingRef h" "isSubmittingRef h' = isSubmittingRef h"
        by (simp_all add: lframe_def)
      from inv have "guard_inv (h'\<lparr>leaderboardRuns := advance i nxt (leaderboardRuns h')\<rparr>)"
        by (simp add: guard_inv_def f)
      with Ev_leaderboardSettled True Some res show ?thesis by simp
    qed
  qed
next
  case (Ev_refs a ch sg)
  then show ?thesis using inv by (simp add: guard_inv_def)
qed

lemma guard_inv_fires: "guard_inv h \<Longrightarrow> guard_inv (fires h evs)"
  unfolding fires_def by (induction evs arbitrary: h) (simp_all add: guard_inv_fire)

lemma guard_inv_hook0: "guard_inv hook0"
  by (simp add: guard_inv_def hook0_def)

subsection \<open>The views of the contract\<close>

lemma countValid_eq:
  "countValid s ps n = n + length (filter (\<lambda>p. exists (playerScores s p)) ps)"
  by (induction ps arbitrary: n) auto

lemma fillValid_eq:
  assumes "length pls = length tss"
    and "index + length (filter (\<lambda>p. exists (playerScores s p)) ps) \<le> length pls"
  shows "fillValid s ps index (pls, tss) =
     Inr (take index pls @ filter (\<lambda>p. exists (playerScores s p)) ps @
            drop (index + length (filter (\<lambda>p. exists (playerScores s p)) ps)) pls,
          take index tss @ map (\<lambda>p. timestamp (playerScores s p))
                             (filter (\<lambda>p. exists (playerScores s p)) ps) @
            drop (index + length (filter (\<lambda>p. exists (playerScores s p)) ps)) tss)"
  using assms
proof (induction ps arbitrary: index pls tss)
  case Nil
  then show ?case by simp
next
  case (Cons p ps)
  show ?case
  proof (cases "exists (playerScores s p)")
    case False
    with Cons show ?thesis by simp
  next
    case True
    let ?k = "length (filter (\<lambda>p. exists (playerScores s p)) ps)"
    from Cons.prems True have lt: "index < length pls" "index < length tss" by simp_all
    have len: "length (pls[index := p]) = length (tss[index := timestamp (playerScores s p)])"
      using Cons.prems(1) by simp
    have bound: "index + 1 + ?k \<le> length (pls[index := p])"
      using Cons.prems(2) True by simp
    have t1: "take (index + 1) (pls[index := p]) = take index pls @ [p]"
      using lt(1) by (simp add: take_Suc_conv_app_nth)
    have t2: "take (index + 1) (tss[index := timestamp (playerScores s p)]) =
        take index tss @ [timestamp (playerScores s p)]"
      using lt(2) by (simp add: take_Suc_conv_app_nth)
    from Cons.IH [OF len bound] True lt show ?thesis
      by (simp add: Let_def t1 [simplified] t2 [simplified])
  qed
qed

lemma getLeaderboard_eq:
  "getLeaderboard s =
     Inr (filter (\<lambda>p. exists (playerScores s p)) (players s),
          map (\<lambda>p. timestamp (playerScores s p)) (filter (\<lambda>p. exists (playerScores s p)) (players s)))"
  by (simp add: getLeaderboard_def Let_def countValid_eq fillValid_eq)

lemma map_nth_range: "st + n \<le> length xs \<Longrightarrow> map (\<lambda>i. xs ! (st + i)) [0..<n] = take n (drop st xs)"
  by (rule nth_equalityI) auto

lemma getLeaderboardRange_eq:
  assumes "unat st + unat cnt < 2 ^ 256 \<or> length (players s) \<le> unat st"
  shows "getLeaderboardRange s st cnt =
     Inr (take (unat cnt) (drop (unat st) (players s)),
          map (\<lambda>p. encryptedScore (playerScores s p)) (take (unat cnt) (drop (unat st) (players s))),
          map (\<lambda>p. timestamp (playerScores s p)) (take (unat cnt) (drop (unat st) (players s))))"
proof (cases "length (players s) \<le> unat st")
  case True
  then show ?thesis by (simp add: getLeaderboardRange_def)
next
  case False
  with assms have fit: "unat st + unat cnt < 2 ^ 256" by simp
  show ?thesis
  proof (cases "length (players s) < unat st + unat cnt")
    case True
    have "map (\<lambda>i. players s ! (unat st + i)) [0..<length (players s) - unat st] =
          take (length (players s) - unat st) (drop (unat st) (players s))"
      using False by (intro map_nth_range) simp
    also have "\<dots> = take (unat cnt) (drop (unat st) (players s))"
      using True by simp
    finally show ?thesis using False fit True
      by (simp add: getLeaderboardRange_def Let_def del: map_map)
  next
    case le: False
    have "map (\<lambda>i. players s ! (unat st + i)) [0..<unat cnt] =
          take (unat cnt) (drop (unat st) (players s))"
      using le by (intro map_nth_range) simp
    then show ?thesis using False fit le
      by (simp add: getLeaderboardRange_def Let_def del: map_map)
  qed
qed


subsection \<open>Sorting and ranking in the hook\<close>

lemma compareEntries_le:
  "compareEntries a b \<le> 0 \<longleftrightarrow> - uint (e_timestamp a) \<le> - uint (e_timestamp b)"
  by (auto simp: compareEntries_def word_less_def)

lemma insertBy_compareEntries:
  "insertBy compareEntries x ys = insort_key (\<lambda>e. - uint (e_timestamp e)) x ys"
  by (induction ys) (simp_all add: compareEntries_le)

lemma sortBy_compareEntries:
  "sortBy compareEntries xs = sort_key (\<lambda>e. - uint (e_timestamp e)) xs"
proof -
  have "insertBy compareEntries = insort_key (\<lambda>e. - uint (e_timestamp e))"
    by (intro ext) (rule insertBy_compareEntries)
  then show ?thesis by (simp add: sortBy_def sort_key_def)
qed

lemma sorted_desc_sortBy:
  "sorted_wrt (\<lambda>a b. b \<le> a) (map e_timestamp (sortBy compareEntries xs))"
proof -
  have "sorted (map (\<lambda>e. - uint (e_timestamp e)) (sortBy compareEntries xs))"
    by (simp add: sortBy_compareEntries)
  then have "sorted_wrt (\<lambda>a b. - uint (e_timestamp a) \<le> - uint (e_timestamp b))
               (sortBy compareEntries xs)"
    by (simp add: sorted_map)
  then have "sorted_wrt (\<lambda>a b. e_timestamp b \<le> e_timestamp a) (sortBy compareEntries xs)"
    by (simp add: word_le_def)
  then show ?thesis by (simp add: sorted_wrt_map)
qed

lemma stable_sortBy:
  "filter (\<lambda>e. e_timestamp e = t) (sortBy compareEntries xs) = filter (\<lambda>e. e_timestamp e = t) xs"
proof -
  have eq: "(\<lambda>e::Entry. e_timestamp e = t) = (\<lambda>e. - uint (e_timestamp e) = - uint t)"
    by (intro ext) (simp add: word_uint_eq_iff)
  have "filter (\<lambda>e. - uint (e_timestamp e) = - uint t) (sort_key (\<lambda>e. - uint (e_timestamp e)) xs) =
        filter (\<lambda>e. - uint (e_timestamp e) = - uint t) xs"
    by (rule sort_key_stable)
  then show ?thesis unfolding sortBy_compareEntries eq .
qed

lemma set_sortBy: "set (sortBy compareEntries xs) = set xs"
  by (simp add: sortBy_compareEntries)

lemma length_sortBy: "length (sortBy compareEntries xs) = length xs"
  by (simp add: sortBy_compareEntries)

lemma mset_map_sortBy: "mset (map f (sortBy compareEntries xs)) = mset (map f xs)"
  by (simp add: sortBy_compareEntries)

lemma rankFrom_address: "map e_address (rankFrom i es) = map e_address es"
  by (induction es arbitrary: i) simp_all

lemma rankFrom_timestamp: "map e_timestamp (rankFrom i es) = map e_timestamp es"
  by (induction es arbitrary: i) simp_all

lemma rankFrom_handle: "map encryptedScoreHandle (rankFrom i es) = map encryptedScoreHandle es"
  by (induction es arbitrary: i) simp_all

lemma rankFrom_rank: "map rank (rankFrom i es) = [Suc i..<Suc i + length es]"
  by (induction es arbitrary: i) (simp_all add: upt_rec)

lemma rankFrom_length: "length (rankFrom i es) = length es"
  by (induction es arbitrary: i) simp_all

lemma rankFrom_filter_address:
  "map e_address (filter (\<lambda>r. e_timestamp r = t) (rankFrom i es)) =
   map e_address (filter (\<lambda>e. e_timestamp e = t) es)"
  by (induction es arbitrary: i) simp_all

lemma rankFrom_set:
  "r \<in> set (rankFrom i es) \<Longrightarrow>
   \<exists>e\<in>set es. e_address r = e_address e \<and> e_timestamp r = e_timestamp e \<and>
     encryptedScoreHandle r = encryptedScoreHandle e"
  by (induction es arbitrary: i) auto


subsection \<open>A fetch of the leaderboard against the storage\<close>

lemma isStaleLb_frame [simp]:
  "isStaleLb chain addr (h\<lparr>message := m\<rparr>) = isStaleLb chain addr h"
  "isStaleLb chain addr (h\<lparr>calls := cs\<rparr>) = isStaleLb chain addr h"
  by (simp_all add: isStaleLb_def)

lemma validScoresOf_storage:
  assumes "\<forall>p\<in>set pls. exists (playerScores s p)"
  shows "validScoresOf pls (map (getPlayerScore s) pls) =
         map (\<lambda>p. (p, encryptedScore (playerScores s p), timestamp (playerScores s p), True)) pls"
  using assms
  by (induction pls) (simp_all add: validScoresOf_def getPlayerScore_def Let_def)

lemma entriesOf_storage:
  "entriesOf (map (\<lambda>p. (p, encryptedScore (playerScores s p), timestamp (playerScores s p), True)) pls) =
   map (entryOf s) (filter (\<lambda>p. encryptedScore (playerScores s p) \<noteq> 0) pls)"
  by (induction pls) (simp_all add: entriesOf_def entryOf_def)

lemma filter_listed:
  "filter (\<lambda>p. encryptedScore (playerScores s p) \<noteq> 0) (filter (\<lambda>p. exists (playerScores s p)) ps) =
   filter (listed s) ps"
  by (induction ps) (simp_all add: listed_def)

lemma listed_eq:
  "(\<lambda>x. exists (playerScores s x) \<and> encryptedScore (playerScores s x) \<noteq> 0) = listed s"
  by (intro ext) (simp add: listed_def)

lemma rank_sort_Nil: "rankFrom 0 (sortBy compareEntries []) = []"
  by (simp add: sortBy_def)

lemma afterGetPlayerScores_storage:
  assumes ex: "\<forall>p\<in>set pls. exists (playerScores s p)" and ns: "\<not> isStaleLb chain addr h"
  shows "leaderboard (fst (afterGetPlayerScores chain addr pls (Resolved (map (getPlayerScore s) pls)) h)) =
         rankFrom 0 (sortBy compareEntries
           (map (entryOf s) (filter (\<lambda>p. encryptedScore (playerScores s p) \<noteq> 0) pls)))"
proof (cases "pls = []")
  case True
  then show ?thesis
    by (simp add: afterGetPlayerScores_def validScoresOf_def lbFinally_def rank_sort_Nil)
next
  case False
  show ?thesis
    using False ns
    by (simp add: afterGetPlayerScores_def validScoresOf_storage [OF ex] entriesOf_storage
        Let_def lbFinally_def rank_sort_Nil)
qed

lemma fetchLeaderboardOn_eq:
  assumes ns: "\<not> isStaleLb chain addr h"
  shows "leaderboard (fetchLeaderboardOn s chain addr h) =
         rankFrom 0 (sortBy compareEntries (map (entryOf s) (filter (listed s) (players s))))"
proof (cases "filter (\<lambda>p. exists (playerScores s p)) (players s) = []")
  case True
  then have "filter (listed s) (players s) = []"
    using filter_listed [of s "players s"] by simp
  with True show ?thesis
    by (simp add: fetchLeaderboardOn_def getLeaderboard_eq afterGetLeaderboard_def lbFinally_def
        rank_sort_Nil)
next
  case False
  let ?P = "filter (\<lambda>p. exists (playerScores s p)) (players s)"
  have ex: "\<forall>p\<in>set ?P. exists (playerScores s p)" by simp
  show ?thesis
    using False ns
    by (simp add: fetchLeaderboardOn_def getLeaderboard_eq afterGetLeaderboard_def
        afterGetPlayerScores_storage [OF ex] listed_eq del: natToString.simps)
qed


lemma filter_all_players: "players_inv s \<Longrightarrow> filter (\<lambda>p. exists (playerScores s p)) (players s) = players s"
  by (simp add: players_inv_def)

lemma filter_listed_players:
  "players_inv s \<Longrightarrow> handles_inv s \<Longrightarrow> filter (listed s) (players s) = players s"
  by (simp add: players_inv_def handles_inv_def listed_def)

lemma map_insort_key:
  "map g (insort_key (\<lambda>a. k (g a)) x xs) = insort_key k (g x) (map g xs)"
  by (induction xs) simp_all

lemma map_sort_key: "map g (sort_key (\<lambda>a. k (g a)) xs) = sort_key k (map g xs)"
  by (induction xs) (simp_all add: map_insort_key)

lemma mset_sortBy: "mset (sortBy compareEntries xs) = mset xs"
  by (simp add: sortBy_compareEntries)

lemma address_order_by_time:
  "map e_address (sortBy compareEntries (map (entryOf s) ps)) =
   map fst (sort_key (\<lambda>(p, t). - uint t) (map (\<lambda>p. (p, timestamp (playerScores s p))) ps))"
proof -
  let ?g = "\<lambda>e::Entry. (e_address e, e_timestamp e)"
  let ?k = "\<lambda>(p::address, t::uint256). - uint t"
  have "map e_address (sortBy compareEntries (map (entryOf s) ps)) =
        map fst (map ?g (sort_key (\<lambda>e. ?k (?g e)) (map (entryOf s) ps)))"
    by (simp add: sortBy_compareEntries comp_def)
  also have "\<dots> = map fst (sort_key ?k (map ?g (map (entryOf s) ps)))"
    using map_sort_key [of ?g ?k "map (entryOf s) ps"] by simp
  also have "map ?g (map (entryOf s) ps) = map (\<lambda>p. (p, timestamp (playerScores s p))) ps"
    by (simp add: entryOf_def)
  finally show ?thesis .
qed

subsection \<open>Evaluation at concrete inputs\<close>

lemmas eval_defs = submitScore_def mintCharacter_def init_def zeroScore_def mockFhe_def
  allow_def Let_def ucast_mockEnc

lemmas hook_eval = hook0_def fires_def decryptScore_def submitScore_hook_def addCall_def Let_def
  advance_def afterGetAddress_def afterGetPlayerScore_def afterLoadOrSign_def afterUserDecrypt_def
  decryptFinally_def decryptCatch_def isStale_def props0_def captured0_def

lemma ledger0_players: "players ledger0 = [1, 2]"
  by (simp add: ledger0_def eval_defs)

lemma ledger0_scores:
  "playerScores ledger0 1 = \<lparr>encryptedScore = mockEnc 50, timestamp = 100, exists = True\<rparr>"
  "playerScores ledger0 2 = \<lparr>encryptedScore = mockEnc 80, timestamp = 200, exists = True\<rparr>"
  by (simp_all add: ledger0_def eval_defs)

lemma viewer0_fresh: "\<not> isStaleLb (Some 31337) 7 viewer0"
  by (simp add: isStaleLb_def viewer0_def hook0_def)

section \<open>The claims\<close>

text \<open>
  C1. After any trace of calls, the score record of a principal with at least one accepted
  submission exists, its ciphertext decrypts to the maximum of the plaintexts that the
  principal submitted, and its timestamp is that of the principal's most recent accepted
  submission, whether or not that submission raised the score.
\<close>

theorem submitScore_keeps_max_and_latest_timestamp:
  assumes "fhe_laws V" and "plainsOf p (submissions V this init txs) \<noteq> []"
  shows "exists (playerScores (run V this init txs) p) \<and>
         decrypt V (encryptedScore (playerScores (run V this init txs) p)) =
           Max (set (plainsOf p (submissions V this init txs))) \<and>
         timestamp (playerScores (run V this init txs) p) =
           last (timesOf p (submissions V this init txs))"
  using score_inv_run [OF assms(1), of this txs] assms(2)
  by (simp add: score_inv_def)

theorem submitScore_keeps_max_and_latest_timestamp_witness:
  "plainsOf 1 (submissions mockFhe 99 init [Mint 1, Submit 1 100 50 [1], Submit 1 200 30 [1]]) = [50, 30] \<and>
   exists (playerScores (run mockFhe 99 init [Mint 1, Submit 1 100 50 [1], Submit 1 200 30 [1]]) 1) \<and>
   decrypt mockFhe (encryptedScore (playerScores
      (run mockFhe 99 init [Mint 1, Submit 1 100 50 [1], Submit 1 200 30 [1]]) 1)) = 50 \<and>
   timestamp (playerScores (run mockFhe 99 init [Mint 1, Submit 1 100 50 [1], Submit 1 200 30 [1]]) 1) = 200"
proof -
  have hist: "submissions mockFhe 99 init [Mint 1, Submit 1 100 50 [1], Submit 1 200 30 [1]] =
     [(1, 50, 100), (1, 30, 200)]"
    by (simp add: eval_defs)
  have ne: "plainsOf 1 (submissions mockFhe 99 init [Mint 1, Submit 1 100 50 [1], Submit 1 200 30 [1]]) \<noteq> []"
    unfolding hist by (simp add: plainsOf_def)
  show ?thesis
    using submitScore_keeps_max_and_latest_timestamp [OF mockFhe_laws ne]
    unfolding hist by (simp add: plainsOf_def timesOf_def)
qed


text \<open>
  C2. After any trace with at least one accepted submission, \<open>_maxEncryptedScore\<close>
  decrypts to the maximum of all plaintexts submitted, by whichever principals; and after
  any common prefix, two orderings of the same submit calls leave maxima that decrypt to
  the same value.
\<close>

theorem maxEncryptedScore_is_global_max:
  assumes "fhe_laws V"
  shows "(submissions V this init txs \<noteq> [] \<longrightarrow>
          decrypt V (maxEncryptedScore (run V this init txs)) =
            Max (set (allPlains (submissions V this init txs)))) \<and>
         (\<forall>subs subs'. (\<forall>t\<in>set subs. isSubmit t) \<and> mset subs' = mset subs \<longrightarrow>
            decrypt V (maxEncryptedScore (run V this init (txs @ subs'))) =
            decrypt V (maxEncryptedScore (run V this init (txs @ subs))))"
proof (intro conjI allI impI)
  assume "submissions V this init txs \<noteq> []"
  then show "decrypt V (maxEncryptedScore (run V this init txs)) =
            Max (set (allPlains (submissions V this init txs)))"
    using score_inv_run [OF assms, of this txs] by (simp add: score_inv_def)
next
  fix subs subs'
  assume "(\<forall>t\<in>set subs. isSubmit t) \<and> mset subs' = mset subs"
  then have "set (submissions V this init (txs @ subs')) = set (submissions V this init (txs @ subs))"
    by (simp add: set_submissions_perm)
  then show "decrypt V (maxEncryptedScore (run V this init (txs @ subs'))) =
            decrypt V (maxEncryptedScore (run V this init (txs @ subs)))"
    by (simp only: decrypt_max_determined [OF assms])
qed

theorem maxEncryptedScore_is_global_max_witness:
  "submissions mockFhe 99 init [Mint 1, Mint 2, Submit 1 100 50 [1], Submit 2 200 80 [1], Submit 1 300 30 [1]] =
     [(1, 50, 100), (2, 80, 200), (1, 30, 300)] \<and>
   decrypt mockFhe (maxEncryptedScore
     (run mockFhe 99 init [Mint 1, Mint 2, Submit 1 100 50 [1], Submit 2 200 80 [1], Submit 1 300 30 [1]])) = 80 \<and>
   decrypt mockFhe (maxEncryptedScore
     (run mockFhe 99 init ([Mint 1, Mint 2] @ [Submit 2 200 80 [1], Submit 1 100 50 [1]]))) =
   decrypt mockFhe (maxEncryptedScore
     (run mockFhe 99 init ([Mint 1, Mint 2] @ [Submit 1 100 50 [1], Submit 2 200 80 [1]])))"
proof -
  have hist: "submissions mockFhe 99 init
       [Mint 1, Mint 2, Submit 1 100 50 [1], Submit 2 200 80 [1], Submit 1 300 30 [1]] =
     [(1, 50, 100), (2, 80, 200), (1, 30, 300)]"
    by (simp add: eval_defs)
  have perm: "(\<forall>t\<in>set [Submit 1 100 50 [1], Submit 2 200 80 [1]]. isSubmit t) \<and>
      mset [Submit 2 200 80 [1], Submit 1 100 50 [1]] = mset [Submit 1 100 50 [1], Submit 2 200 80 [1]]"
    by simp
  note gm = maxEncryptedScore_is_global_max [OF mockFhe_laws, of 99]
  have a: "decrypt mockFhe (maxEncryptedScore
     (run mockFhe 99 init [Mint 1, Mint 2, Submit 1 100 50 [1], Submit 2 200 80 [1], Submit 1 300 30 [1]])) = 80"
    using gm [of "[Mint 1, Mint 2, Submit 1 100 50 [1], Submit 2 200 80 [1], Submit 1 300 30 [1]]"]
    unfolding hist by (simp add: allPlains_def)
  have b: "decrypt mockFhe (maxEncryptedScore
     (run mockFhe 99 init ([Mint 1, Mint 2] @ [Submit 2 200 80 [1], Submit 1 100 50 [1]]))) =
   decrypt mockFhe (maxEncryptedScore
     (run mockFhe 99 init ([Mint 1, Mint 2] @ [Submit 1 100 50 [1], Submit 2 200 80 [1]])))"
    using gm [of "[Mint 1, Mint 2]"] perm by blast
  show ?thesis using hist a b by blast
qed

text \<open>
  C3. A call of \<open>submitScore\<close> by a principal that owns no character token fails with
  \<open>NotEligible\<close>, whatever its arguments, and the storage after the call is the storage
  before it: no score record, player entry, maximum or grant is written.
\<close>

theorem submitScore_rejects_ineligible:
  assumes "\<not> fst (hasCharacter s p)"
  shows "submitScore V this p now e pr s = Inl NotEligible \<and>
         exec V this s (Submit p now e pr) = s"
proof -
  have "ownerTokens s p = []"
    using assms by (simp add: hasCharacter_def split: list.splits)
  then show ?thesis by (simp add: submitScore_NotEligible)
qed

theorem submitScore_rejects_ineligible_witness:
  "\<not> fst (hasCharacter init 1) \<and>
   submitScore mockFhe 99 1 100 50 [1] init = Inl NotEligible \<and>
   exec mockFhe 99 init (Submit 1 100 50 [1]) = init"
proof -
  have h: "\<not> fst (hasCharacter init 1)" by (simp add: hasCharacter_def init_def)
  show ?thesis
    using h submitScore_rejects_ineligible [OF h, of mockFhe 99 100 50 "[1]"] by simp
qed


text \<open>
  C4. When the signature for a decryption arrives and the staleness test holds, the
  decryption ends there: \<open>userDecrypt\<close> is not called (the log of calls is unchanged and
  nothing is left to resume). When the oracle's answer arrives and the staleness test
  holds, the answer is dropped: the player's score keeps its value and the message is
  "Ignore decryption", not a failure message.
\<close>

theorem stale_decryption_is_ignored:
  "(decryptRuns h = [D_loadOrSign c hs] \<and> isStale c h \<longrightarrow>
      calls (fire h (Ev_decryptSettled 0 (R_loadOrSign (Resolved (Some sig))))) = calls h \<and>
      decryptRuns (fire h (Ev_decryptSettled 0 (R_loadOrSign (Resolved (Some sig))))) = [] \<and>
      playerScore (fire h (Ev_decryptSettled 0 (R_loadOrSign (Resolved (Some sig))))) = playerScore h \<and>
      message (fire h (Ev_decryptSettled 0 (R_loadOrSign (Resolved (Some sig))))) = ''Ignore decryption'') \<and>
   (decryptRuns h = [D_userDecrypt c hs] \<and> isStale c h \<longrightarrow>
      calls (fire h (Ev_decryptSettled 0 (R_userDecrypt (Resolved res)))) = calls h \<and>
      decryptRuns (fire h (Ev_decryptSettled 0 (R_userDecrypt (Resolved res)))) = [] \<and>
      playerScore (fire h (Ev_decryptSettled 0 (R_userDecrypt (Resolved res)))) = playerScore h \<and>
      message (fire h (Ev_decryptSettled 0 (R_userDecrypt (Resolved res)))) = ''Ignore decryption'')"
  by (simp add: afterLoadOrSign_def afterUserDecrypt_def decryptFinally_def advance_def Let_def)

theorem stale_decryption_is_ignored_witness:
  "(decryptRuns staleBeforeOracle = [D_loadOrSign captured0 5] \<and> isStale captured0 staleBeforeOracle \<and>
    calls (fire staleBeforeOracle (Ev_decryptSettled 0 (R_loadOrSign (Resolved (Some sig0))))) =
      [Call_getAddress 1, Call_getPlayerScore 7 1, Call_loadOrSign [7] 1] \<and>
    message (fire staleBeforeOracle (Ev_decryptSettled 0 (R_loadOrSign (Resolved (Some sig0))))) =
      ''Ignore decryption'') \<and>
   (decryptRuns staleAfterOracle = [D_userDecrypt captured0 5] \<and> isStale captured0 staleAfterOracle \<and>
    playerScore (fire staleAfterOracle (Ev_decryptSettled 0 (R_userDecrypt (Resolved (\<lambda>_. Some 42))))) =
      None \<and>
    message (fire staleAfterOracle (Ev_decryptSettled 0 (R_userDecrypt (Resolved (\<lambda>_. Some 42))))) =
      ''Ignore decryption'')"
proof -
  have b1: "decryptRuns staleBeforeOracle = [D_loadOrSign captured0 5]"
    and b2: "isStale captured0 staleBeforeOracle"
    and b3: "calls staleBeforeOracle = [Call_getAddress 1, Call_getPlayerScore 7 1, Call_loadOrSign [7] 1]"
    by (simp_all add: staleBeforeOracle_def hook_eval)
  have a1: "decryptRuns staleAfterOracle = [D_userDecrypt captured0 5]"
    and a2: "isStale captured0 staleAfterOracle"
    and a3: "playerScore staleAfterOracle = None"
    by (simp_all add: staleAfterOracle_def hook_eval)
  show ?thesis
    using b1 b2 b3 a1 a2 a3
      stale_decryption_is_ignored [of staleBeforeOracle captured0 5 sig0]
      stale_decryption_is_ignored [of staleAfterOracle captured0 5 _ "\<lambda>_. Some 42"]
    by simp
qed

text \<open>
  C5. In every state that the contract reaches, a fetch of the leaderboard that is not
  stale lists exactly the players whose score record exists, each once, with the handle
  and timestamp of its record; the list is in descending order of timestamp, and players
  with equal timestamps keep the order in which the contract lists them. The ranks count
  from 1. The order is that of a stable sort of the pairs (player, timestamp) alone: the
  scores take no part in it.
\<close>

theorem leaderboard_orders_by_recency:
  assumes "fhe_laws V" and "\<not> isStaleLb chain addr h"
  shows "let s = run V this init txs; L = leaderboard (fetchLeaderboardOn s chain addr h) in
     distinct (map e_address L) \<and>
     set (map e_address L) = {p. exists (playerScores s p)} \<and>
     (\<forall>r\<in>set L. encryptedScoreHandle r = encryptedScore (playerScores s (e_address r)) \<and>
                 e_timestamp r = timestamp (playerScores s (e_address r))) \<and>
     sorted_wrt (\<lambda>a b. b \<le> a) (map e_timestamp L) \<and>
     (\<forall>t. map e_address (filter (\<lambda>r. e_timestamp r = t) L) =
          filter (\<lambda>p. timestamp (playerScores s p) = t) (players s)) \<and>
     map rank L = [1..<Suc (length L)] \<and>
     map e_address L =
       map fst (sort_key (\<lambda>(p, t). - uint t) (map (\<lambda>p. (p, timestamp (playerScores s p))) (players s)))"
proof -
  define s where "s = run V this init txs"
  define E where "E = sortBy compareEntries (map (entryOf s) (players s))"
  define L where "L = leaderboard (fetchLeaderboardOn s chain addr h)"
  have pinv: "players_inv s" unfolding s_def by (rule players_inv_run)
  have hinv: "handles_inv s" unfolding s_def by (rule handles_inv_run [OF assms(1)])
  have L: "L = rankFrom 0 E"
    unfolding L_def E_def
    by (simp add: fetchLeaderboardOn_eq [OF assms(2)] filter_listed_players [OF pinv hinv])
  have addr: "map e_address L = map e_address E" by (simp add: L rankFrom_address)
  have "mset (map e_address E) = mset (map e_address (map (entryOf s) (players s)))"
    unfolding E_def by (rule mset_map_sortBy)
  then have msetE: "mset (map e_address E) = mset (players s)"
    by (simp add: comp_def entryOf_def)
  have 1: "distinct (map e_address L)"
    using pinv mset_eq_imp_distinct_iff [OF msetE] by (simp add: addr players_inv_def)
  have 2: "set (map e_address L) = {p. exists (playerScores s p)}"
    using pinv mset_eq_setD [OF msetE] by (auto simp: addr players_inv_def)
  have 3: "encryptedScoreHandle r = encryptedScore (playerScores s (e_address r)) \<and>
           e_timestamp r = timestamp (playerScores s (e_address r))" if "r \<in> set L" for r
  proof -
    from that obtain e where e: "e \<in> set E" "e_address r = e_address e"
      "e_timestamp r = e_timestamp e" "encryptedScoreHandle r = encryptedScoreHandle e"
      unfolding L by (blast dest: rankFrom_set)
    from e(1) obtain p where "e = entryOf s p"
      unfolding E_def by (auto simp: set_sortBy)
    with e show ?thesis by (simp add: entryOf_def)
  qed
  have 4: "sorted_wrt (\<lambda>a b. b \<le> a) (map e_timestamp L)"
    unfolding L E_def by (simp add: rankFrom_timestamp sorted_desc_sortBy)
  have 5: "map e_address (filter (\<lambda>r. e_timestamp r = t) L) =
           filter (\<lambda>p. timestamp (playerScores s p) = t) (players s)" for t
    unfolding L E_def
    by (simp add: rankFrom_filter_address stable_sortBy filter_map comp_def entryOf_def)
  have 6: "map rank L = [1..<Suc (length L)]"
    by (simp add: L rankFrom_rank rankFrom_length)
  have 7: "map e_address L =
       map fst (sort_key (\<lambda>(p, t). - uint t) (map (\<lambda>p. (p, timestamp (playerScores s p))) (players s)))"
    unfolding addr E_def by (rule address_order_by_time)
  show ?thesis
    using 1 2 3 4 5 6 7 unfolding Let_def s_def [symmetric] L_def [symmetric] by blast
qed


theorem leaderboard_orders_by_recency_witness:
  "fhe_laws mockFhe \<and> \<not> isStaleLb (Some 31337) 7 viewer0 \<and>
   map e_address (leaderboard (fetchLeaderboardOn
     (run mockFhe 99 init [Mint 1, Mint 2, Submit 1 100 50 [1], Submit 2 200 80 [1]])
     (Some 31337) 7 viewer0)) = [2, 1] \<and>
   map rank (leaderboard (fetchLeaderboardOn
     (run mockFhe 99 init [Mint 1, Mint 2, Submit 1 100 50 [1], Submit 2 200 80 [1]])
     (Some 31337) 7 viewer0)) = [1, 2]"
proof -
  note r = leaderboard_orders_by_recency [OF mockFhe_laws viewer0_fresh, of 99
      "[Mint 1, Mint 2, Submit 1 100 50 [1], Submit 2 200 80 [1]]", unfolded Let_def, folded ledger0_def]
  note r6 = r [THEN conjunct2, THEN conjunct2, THEN conjunct2, THEN conjunct2, THEN conjunct2,
      THEN conjunct1]
  note r7 = r [THEN conjunct2, THEN conjunct2, THEN conjunct2, THEN conjunct2, THEN conjunct2,
      THEN conjunct2]
  have a: "map e_address (leaderboard (fetchLeaderboardOn ledger0 (Some 31337) 7 viewer0)) = [2, 1]"
    unfolding r7 by (simp add: ledger0_players ledger0_scores)
  have "map rank (leaderboard (fetchLeaderboardOn ledger0 (Some 31337) 7 viewer0)) =
      [1..<Suc (length (map e_address (leaderboard (fetchLeaderboardOn ledger0 (Some 31337) 7 viewer0))))]"
    unfolding r6 by simp
  then have b: "map rank (leaderboard (fetchLeaderboardOn ledger0 (Some 31337) 7 viewer0)) = [1, 2]"
    unfolding a by (simp add: upt_rec)
  show ?thesis
    using a b mockFhe_laws viewer0_fresh unfolding ledger0_def by simp
qed

text \<open>
  C6, as stated, fails: \<open>getLeaderboardRange\<close> does not follow the descending order of
  timestamps of the leaderboard projection. With two players of which the second
  submitted later, the range over both lists the first submitter first, the projection
  the second. And with start 1 and the largest count, start plus count does not fit in
  256 bits and the call reverts, where the claim promises the remainder.
\<close>

theorem getLeaderboardRange_order_counterexample:
  "map e_address (leaderboard (fetchLeaderboardOn ledger0 (Some 31337) 7 viewer0)) = [2, 1] \<and>
   getLeaderboardRange ledger0 0 2 = Inr ([1, 2], [mockEnc 50, mockEnc 80], [100, 200]) \<and>
   getLeaderboardRange ledger0 0 2 \<noteq>
     Inr (take 2 (drop 0 (map e_address (leaderboard (fetchLeaderboardOn ledger0 (Some 31337) 7 viewer0)))),
          [mockEnc 50, mockEnc 80], [100, 200]) \<and>
   getLeaderboardRange ledger0 1
     115792089237316195423570985008687907853269984665640564039457584007913129639935 = Inl Overflow"
proof -
  have full: "map e_address (leaderboard (fetchLeaderboardOn ledger0 (Some 31337) 7 viewer0)) = [2, 1]"
    by (simp add: fetchLeaderboardOn_eq [OF viewer0_fresh] ledger0_players ledger0_scores listed_def
        mockEnc_nonzero sortBy_def entryOf_def compareEntries_def)
  have "unat (0::uint256) + unat (2::uint256) < 2 ^ 256 \<or> length (players ledger0) \<le> unat (0::uint256)"
    by simp
  from getLeaderboardRange_eq [OF this]
  have range: "getLeaderboardRange ledger0 0 2 = Inr ([1, 2], [mockEnc 50, mockEnc 80], [100, 200])"
    by (simp add: ledger0_players ledger0_scores)
  have over: "getLeaderboardRange ledger0 1
     115792089237316195423570985008687907853269984665640564039457584007913129639935 = Inl Overflow"
    by (simp add: getLeaderboardRange_def ledger0_players)
  show ?thesis unfolding full range over by simp
qed


text \<open>
  C6, amended. In every state that the contract reaches, \<open>getLeaderboard\<close> lists all
  players in the order of their first submission, and \<open>getLeaderboardRange\<close> returns
  the slice of that list, with the handles and timestamps of the players in it: nothing
  when the start is at or beyond the number of players, and the remainder when start plus
  count exceeds it. This holds whenever start plus count fits in 256 bits or the start is
  at or beyond the number of players.
\<close>

theorem getLeaderboardRange_slices_players:
  assumes "unat st + unat cnt < 2 ^ 256 \<or> length (players (run V this init txs)) \<le> unat st"
  shows "let s = run V this init txs; k = unat st; n = unat cnt in
     getLeaderboard s = Inr (players s, map (\<lambda>p. timestamp (playerScores s p)) (players s)) \<and>
     getLeaderboardRange s st cnt =
       Inr (take n (drop k (players s)),
            map (\<lambda>p. encryptedScore (playerScores s p)) (take n (drop k (players s))),
            take n (drop k (map (\<lambda>p. timestamp (playerScores s p)) (players s)))) \<and>
     (length (players s) \<le> k \<longrightarrow> getLeaderboardRange s st cnt = Inr ([], [], [])) \<and>
     (k < length (players s) \<and> length (players s) < k + n \<longrightarrow>
        getLeaderboardRange s st cnt =
          Inr (drop k (players s),
               map (\<lambda>p. encryptedScore (playerScores s p)) (drop k (players s)),
               drop k (map (\<lambda>p. timestamp (playerScores s p)) (players s))))"
proof -
  define s where "s = run V this init txs"
  have pinv: "players_inv s" unfolding s_def by (rule players_inv_run)
  have a: "getLeaderboard s = Inr (players s, map (\<lambda>p. timestamp (playerScores s p)) (players s))"
    by (simp add: getLeaderboard_eq filter_all_players [OF pinv])
  have b: "getLeaderboardRange s st cnt =
       Inr (take (unat cnt) (drop (unat st) (players s)),
            map (\<lambda>p. encryptedScore (playerScores s p)) (take (unat cnt) (drop (unat st) (players s))),
            take (unat cnt) (drop (unat st) (map (\<lambda>p. timestamp (playerScores s p)) (players s))))"
    using getLeaderboardRange_eq [of st cnt s] assms
    by (simp add: s_def take_map drop_map)
  have c: "getLeaderboardRange s st cnt = Inr ([], [], [])" if "length (players s) \<le> unat st"
    using that by (simp add: b)
  have d: "getLeaderboardRange s st cnt =
          Inr (drop (unat st) (players s),
               map (\<lambda>p. encryptedScore (playerScores s p)) (drop (unat st) (players s)),
               drop (unat st) (map (\<lambda>p. timestamp (playerScores s p)) (players s)))"
    if "length (players s) < unat st + unat cnt"
  proof -
    have "take (unat cnt) (drop (unat st) (players s)) = drop (unat st) (players s)"
      using that by simp
    moreover have "take (unat cnt) (drop (unat st) (map (\<lambda>p. timestamp (playerScores s p)) (players s))) =
        drop (unat st) (map (\<lambda>p. timestamp (playerScores s p)) (players s))"
      using that by simp
    ultimately show ?thesis by (simp only: b)
  qed
  show ?thesis
    unfolding Let_def s_def [symmetric] using a b c d by blast
qed

theorem getLeaderboardRange_slices_players_witness:
  "(unat (1::uint256) + unat (5::uint256) < 2 ^ 256 \<or>
      length (players (run mockFhe 99 init [Mint 1, Mint 2, Submit 1 100 50 [1], Submit 2 200 80 [1]]))
        \<le> unat (1::uint256)) \<and>
   getLeaderboardRange (run mockFhe 99 init [Mint 1, Mint 2, Submit 1 100 50 [1], Submit 2 200 80 [1]]) 1 5 =
     Inr ([2], [mockEnc 80], [200])"
proof -
  have fit: "unat (1::uint256) + unat (5::uint256) < 2 ^ 256 \<or>
      length (players (run mockFhe 99 init [Mint 1, Mint 2, Submit 1 100 50 [1], Submit 2 200 80 [1]]))
        \<le> unat (1::uint256)"
    by simp
  show ?thesis
    using fit getLeaderboardRange_slices_players [OF fit]
      ledger0_players ledger0_scores
    unfolding ledger0_def Let_def by simp
qed


text \<open>
  C7, as stated, fails: for a player that never submitted, \<open>getPlayerScore\<close> returns the
  zero handle together with \<open>exists = false\<close>, and \<open>decryptScore\<close> then reports that no
  score was found and leaves the player's score as it was.
\<close>

theorem zero_handle_counterexample:
  "getPlayerScore init 1 = (0, 0, False) \<and>
   playerScore (fires hook0 [Ev_decryptScore props0, Ev_decryptSettled 0 (R_getAddress (Resolved 1)),
      Ev_decryptSettled 0 (R_getPlayerScore (Resolved (getPlayerScore init 1)))]) \<noteq> Some ''0''"
  by (simp add: hook_eval getPlayerScore_def init_def zeroScore_def)

text \<open>
  C7, amended. A decryption request that passes the guard and reads the zero handle issues
  exactly two calls, \<open>getAddress\<close> and \<open>getPlayerScore\<close>, and then ends, without asking
  for a signature and without calling the oracle. If the score it read exists, the
  player's score becomes "0"; if not, the player's score is unchanged and the message
  says that no score was found.
\<close>

theorem zero_handle_returns_zero_when_score_exists:
  assumes "p_address pr = Some addr" and "p_ethersSigner pr = Some sg" and "p_instance pr"
    and "decryptRuns h = []" and "\<not> isDecryptingRef h"
  shows "calls (fires h [Ev_decryptScore pr, Ev_decryptSettled 0 (R_getAddress (Resolved ua)),
                         Ev_decryptSettled 0 (R_getPlayerScore (Resolved (0, ts, ex)))]) =
           calls h @ [Call_getAddress sg, Call_getPlayerScore addr ua] \<and>
         decryptRuns (fires h [Ev_decryptScore pr, Ev_decryptSettled 0 (R_getAddress (Resolved ua)),
                         Ev_decryptSettled 0 (R_getPlayerScore (Resolved (0, ts, ex)))]) = [] \<and>
         (ex \<longrightarrow>
            playerScore (fires h [Ev_decryptScore pr, Ev_decryptSettled 0 (R_getAddress (Resolved ua)),
                         Ev_decryptSettled 0 (R_getPlayerScore (Resolved (0, ts, ex)))]) = Some ''0'' \<and>
            message (fires h [Ev_decryptScore pr, Ev_decryptSettled 0 (R_getAddress (Resolved ua)),
                         Ev_decryptSettled 0 (R_getPlayerScore (Resolved (0, ts, ex)))]) = ''Score: 0'') \<and>
         (\<not> ex \<longrightarrow>
            playerScore (fires h [Ev_decryptScore pr, Ev_decryptSettled 0 (R_getAddress (Resolved ua)),
                         Ev_decryptSettled 0 (R_getPlayerScore (Resolved (0, ts, ex)))]) = playerScore h \<and>
            message (fires h [Ev_decryptScore pr, Ev_decryptSettled 0 (R_getAddress (Resolved ua)),
                         Ev_decryptSettled 0 (R_getPlayerScore (Resolved (0, ts, ex)))]) =
              ''No score found for this player'')"
  using assms
  by (simp add: fires_def decryptScore_def addCall_def Let_def advance_def afterGetAddress_def
      afterGetPlayerScore_def decryptFinally_def)

theorem zero_handle_returns_zero_when_score_exists_witness:
  "p_address props0 = Some 7 \<and> p_ethersSigner props0 = Some 1 \<and> p_instance props0 \<and>
   decryptRuns hook0 = [] \<and> \<not> isDecryptingRef hook0 \<and>
   calls (fires hook0 [Ev_decryptScore props0, Ev_decryptSettled 0 (R_getAddress (Resolved 1)),
                       Ev_decryptSettled 0 (R_getPlayerScore (Resolved (0, 100, True)))]) =
     [Call_getAddress 1, Call_getPlayerScore 7 1] \<and>
   playerScore (fires hook0 [Ev_decryptScore props0, Ev_decryptSettled 0 (R_getAddress (Resolved 1)),
                       Ev_decryptSettled 0 (R_getPlayerScore (Resolved (0, 100, True)))]) = Some ''0''"
proof -
  have p: "p_address props0 = Some 7" "p_ethersSigner props0 = Some 1" "p_instance props0"
    by (simp_all add: props0_def)
  have h: "decryptRuns hook0 = []" "\<not> isDecryptingRef hook0" "calls hook0 = []"
    by (simp_all add: hook0_def)
  show ?thesis
    using p h zero_handle_returns_zero_when_score_exists [OF p h(1) h(2), of 1 100 True]
    by simp
qed

text \<open>
  C8. A successful \<open>submitScore\<close> leaves the submitter's stored ciphertext granted to the
  contract and to the submitter, and the maximum granted to the contract; so in every
  state reached from the initial one, invariant I4 holds for every existing score record
  and for the maximum.
\<close>

theorem submitScore_grants_access:
  "(submitScore V this sender now e p s = Inr s' \<longrightarrow>
      (encryptedScore (playerScores s' sender), this) \<in> acl s' \<and>
      (encryptedScore (playerScores s' sender), sender) \<in> acl s' \<and>
      (maxEncryptedScore s', this) \<in> acl s') \<and>
   I4 this (run V this init txs)"
proof -
  have "(encryptedScore (playerScores s' sender), this) \<in> acl s' \<and>
        (encryptedScore (playerScores s' sender), sender) \<in> acl s' \<and>
        (maxEncryptedScore s', this) \<in> acl s'"
    if ok: "submitScore V this sender now e p s = Inr s'"
  proof -
    from ok obtain h where h: "fromExternal V e p = Some h" by (rule submitScore_InrD)
    note f = submitScore_fields [OF ok h]
    show ?thesis by (simp add: f(1) f(3) f(8))
  qed
  then show ?thesis using I4_run [of this V txs] by blast
qed

theorem submitScore_grants_access_witness:
  "submitScore mockFhe 99 1 100 50 [1] (run mockFhe 99 init [Mint 1]) =
     Inr (run mockFhe 99 init [Mint 1, Submit 1 100 50 [1]]) \<and>
   (encryptedScore (playerScores (run mockFhe 99 init [Mint 1, Submit 1 100 50 [1]]) 1), 99)
      \<in> acl (run mockFhe 99 init [Mint 1, Submit 1 100 50 [1]]) \<and>
   (encryptedScore (playerScores (run mockFhe 99 init [Mint 1, Submit 1 100 50 [1]]) 1), 1)
      \<in> acl (run mockFhe 99 init [Mint 1, Submit 1 100 50 [1]]) \<and>
   (maxEncryptedScore (run mockFhe 99 init [Mint 1, Submit 1 100 50 [1]]), 99)
      \<in> acl (run mockFhe 99 init [Mint 1, Submit 1 100 50 [1]]) \<and>
   exists (playerScores (run mockFhe 99 init [Mint 1, Submit 1 100 50 [1]]) 1) \<and>
   I4 99 (run mockFhe 99 init [Mint 1, Submit 1 100 50 [1]])"
proof -
  have ok: "submitScore mockFhe 99 1 100 50 [1] (run mockFhe 99 init [Mint 1]) =
     Inr (run mockFhe 99 init [Mint 1, Submit 1 100 50 [1]])"
    by (simp add: eval_defs)
  have ex: "exists (playerScores (run mockFhe 99 init [Mint 1, Submit 1 100 50 [1]]) 1)"
    by (simp add: eval_defs)
  show ?thesis
    using ok ex submitScore_grants_access
      [of mockFhe 99 1 100 50 "[1]" "run mockFhe 99 init [Mint 1]"
          "run mockFhe 99 init [Mint 1, Submit 1 100 50 [1]]" "[Mint 1, Submit 1 100 50 [1]]"]
    by blast
qed


text \<open>
  C9. In every state that the hook reaches, at most one decryption and at most one
  submission is started and not finished; while one is, a further call of
  \<open>decryptScore\<close>, respectively \<open>submitScore\<close>, returns the hook unchanged: nothing is
  started or queued, no call is issued and no message is set.
\<close>

theorem second_call_is_noop:
  "length (decryptRuns (fires hook0 evs)) \<le> 1 \<and>
   length (submitRuns (fires hook0 evs)) \<le> 1 \<and>
   (decryptRuns (fires hook0 evs) \<noteq> [] \<longrightarrow>
      decryptScore pr (fires hook0 evs) = fires hook0 evs) \<and>
   (submitRuns (fires hook0 evs) \<noteq> [] \<longrightarrow>
      submitScore_hook pr score (fires hook0 evs) = fires hook0 evs)"
proof -
  have inv: "guard_inv (fires hook0 evs)" by (simp add: guard_inv_fires guard_inv_hook0)
  have d: "decryptScore pr h = h" if "isDecryptingRef h" for h
    using that by (simp add: decryptScore_def split: option.split)
  have s: "submitScore_hook pr score h = h" if "isSubmittingRef h" for h
    using that by (simp add: submitScore_hook_def split: option.split)
  show ?thesis using inv d s by (auto simp: guard_inv_def)
qed


theorem second_call_is_noop_witness:
  "decryptRuns (fires hook0 [Ev_decryptScore props0, Ev_submitScore props0 50]) \<noteq> [] \<and>
   submitRuns (fires hook0 [Ev_decryptScore props0, Ev_submitScore props0 50]) \<noteq> [] \<and>
   decryptScore props0 (fires hook0 [Ev_decryptScore props0, Ev_submitScore props0 50]) =
     fires hook0 [Ev_decryptScore props0, Ev_submitScore props0 50] \<and>
   submitScore_hook props0 60 (fires hook0 [Ev_decryptScore props0, Ev_submitScore props0 50]) =
     fires hook0 [Ev_decryptScore props0, Ev_submitScore props0 50]"
proof -
  have d: "decryptRuns (fires hook0 [Ev_decryptScore props0, Ev_submitScore props0 50]) \<noteq> []"
    by (simp add: hook_eval)
  have s: "submitRuns (fires hook0 [Ev_decryptScore props0, Ev_submitScore props0 50]) \<noteq> []"
    by (simp add: hook_eval)
  show ?thesis
    using d s second_call_is_noop [of "[Ev_decryptScore props0, Ev_submitScore props0 50]" props0 60]
    by blast
qed

text \<open>
  C10. \<open>getTopPlayer\<close> returns the zero address and the zero handle while no submission
  has been accepted; afterwards it returns the principal of the first accepted submission,
  which no later submission changes, and the handle it returns is always zero.
\<close>

theorem getTopPlayer_is_first_submitter:
  "getTopPlayer (run V this init txs) =
     (if submissions V this init txs = [] then (0, 0)
      else (fst (hd (submissions V this init txs)), 0)) \<and>
   (submissions V this init txs \<noteq> [] \<longrightarrow>
      topPlayer (run V this init txs) = fst (hd (submissions V this init txs))) \<and>
   snd (getTopPlayer s) = 0"
  using top_inv_run [of V this txs]
  by (auto simp: top_inv_def getTopPlayer_def)

theorem getTopPlayer_is_first_submitter_witness:
  "submissions mockFhe 99 init [Mint 1, Mint 2, Submit 1 100 50 [1], Submit 2 200 80 [1]] =
     [(1, 50, 100), (2, 80, 200)] \<and>
   getTopPlayer (run mockFhe 99 init [Mint 1, Mint 2, Submit 1 100 50 [1], Submit 2 200 80 [1]]) = (1, 0) \<and>
   getTopPlayer init = (0, 0)"
proof -
  have hist: "submissions mockFhe 99 init [Mint 1, Mint 2, Submit 1 100 50 [1], Submit 2 200 80 [1]] =
     [(1, 50, 100), (2, 80, 200)]"
    by (simp add: eval_defs)
  have e: "submissions mockFhe 99 init [] = []" by simp
  show ?thesis
    using getTopPlayer_is_first_submitter
            [of mockFhe 99 "[Mint 1, Mint 2, Submit 1 100 50 [1], Submit 2 200 80 [1]]" init]
          getTopPlayer_is_first_submitter [of mockFhe 99 "[]" init]
    unfolding hist e by simp
qed


end
